theory Spec2Isabelle
  imports Main
begin

section \<open>Text primitives\<close>

text \<open>
  Python strings are sequences of code points.  A \<^typ>\<open>char\<close> stands for one code point
  of the Latin-1 range (0 to 255); the functions below follow what Python does there.
\<close>

definition is_space :: "char \<Rightarrow> bool" where
  \<comment> \<open>\<^verbatim>\<open>str.isspace\<close>, also the class \<^verbatim>\<open>\s\<close> of \<^verbatim>\<open>re\<close>\<close>
  "is_space c = (let n = (of_char c :: int) in
     (9 \<le> n \<and> n \<le> 13) \<or> (28 \<le> n \<and> n \<le> 32) \<or> n = 133 \<or> n = 160)"

definition is_digit :: "char \<Rightarrow> bool" where
  "is_digit c = (let n = (of_char c :: int) in 48 \<le> n \<and> n \<le> 57)"

definition is_alnum_ci :: "char \<Rightarrow> bool" where
  \<comment> \<open>the class \<^verbatim>\<open>[A-Z0-9]\<close> under \<^verbatim>\<open>re.IGNORECASE\<close>\<close>
  "is_alnum_ci c = (let n = (of_char c :: int) in
     (48 \<le> n \<and> n \<le> 57) \<or> (65 \<le> n \<and> n \<le> 90) \<or> (97 \<le> n \<and> n \<le> 122))"

definition lower_char :: "char \<Rightarrow> char" where
  "lower_char c = (let n = (of_char c :: int) in
     if (65 \<le> n \<and> n \<le> 90) \<or> (192 \<le> n \<and> n \<le> 222 \<and> n \<noteq> 215)
     then char_of (n + 32) else c)"

definition upper_char :: "char \<Rightarrow> char" where
  \<comment> \<open>on ASCII letters, which is all the section names hold\<close>
  "upper_char c = (let n = (of_char c :: int) in
     if 97 \<le> n \<and> n \<le> 122 then char_of (n - 32) else c)"

definition lower :: "string \<Rightarrow> string" where
  "lower s = map lower_char s"

definition upper :: "string \<Rightarrow> string" where
  "upper s = map upper_char s"

definition capitalize :: "string \<Rightarrow> string" where
  "capitalize s = (case s of [] \<Rightarrow> [] | c # cs \<Rightarrow> upper_char c # lower cs)"

definition strip :: "string \<Rightarrow> string" where
  "strip s = rev (dropWhile is_space (rev (dropWhile is_space s)))"

fun starts_with :: "string \<Rightarrow> string \<Rightarrow> bool" where
  "starts_with s [] = True"
| "starts_with [] (p # ps) = False"
| "starts_with (c # cs) (p # ps) = (c = p \<and> starts_with cs ps)"

fun contains :: "string \<Rightarrow> string \<Rightarrow> bool" where
  \<comment> \<open>\<^verbatim>\<open>needle in hay\<close>\<close>
  "contains needle [] = (needle = [])"
| "contains needle (c # cs) = (starts_with (c # cs) needle \<or> contains needle cs)"

definition digit_char :: "int \<Rightarrow> char" where
  "digit_char d = char_of (48 + d)"

function str_digits :: "int \<Rightarrow> string" where
  \<comment> \<open>the decimal digits of an integer that is not negative\<close>
  "str_digits n = (if n < 10 then [digit_char n] else str_digits (n div 10) @ [digit_char (n mod 10)])"
  by pat_completeness auto
termination
  by (relation "measure nat") auto

declare str_digits.simps [simp del]

definition str_int :: "int \<Rightarrow> string" where
  "str_int i = (if i < 0 then CHR ''-'' # str_digits (- i) else str_digits i)"

section \<open>Python's \<^verbatim>\<open>float\<close>\<close>

text \<open>
  \<^verbatim>\<open>float(s)\<close> is the double nearest to the decimal numeral (ties to even), an infinity,
  or a NaN; a numeral that is not well formed raises \<^verbatim>\<open>ValueError\<close>.  A finite double
  is kept exactly, as sign, mantissa and binary exponent: \<open>Finite neg m e\<close> is
  \<open>(if neg then -1 else 1) * m * 2 ^ e\<close>.
\<close>

datatype pyfloat = Finite bool int int | Infinite bool | NotANumber

datatype error = ValueError | OverflowError | UnboundLocalError | KeyError

definition is_float_space :: "char \<Rightarrow> bool" where
  \<comment> \<open>what \<^verbatim>\<open>float\<close> skips at both ends: ASCII white space and the spaces beyond ASCII\<close>
  "is_float_space c = (let n = (of_char c :: int) in
     (9 \<le> n \<and> n \<le> 13) \<or> n = 32 \<or> n = 133 \<or> n = 160)"

function bit_len :: "int \<Rightarrow> int" where
  \<comment> \<open>the number of binary digits\<close>
  "bit_len n = (if n \<le> 0 then 0 else 1 + bit_len (n div 2))"
  by pat_completeness auto
termination
  by (relation "measure nat") auto

declare bit_len.simps [simp del]

definition round_half_even :: "int \<Rightarrow> int \<Rightarrow> int" where
  \<comment> \<open>the integer nearest to \<open>a / b\<close>, a tie going to the even one\<close>
  "round_half_even a b = (let q = a div b; r = a mod b in
     if 2 * r < b then q else if b < 2 * r then q + 1 else if even q then q else q + 1)"

definition round_double :: "int \<Rightarrow> int \<Rightarrow> (int \<times> int) option" where
  \<comment> \<open>\<open>n / d\<close> as a double \<open>m * 2 ^ e\<close> (53 bits, exponent at least -1074);
      \<open>None\<close> when the rounded value is beyond the largest double\<close>
  "round_double n d = (if n = 0 then Some (0, 0) else
     let k = bit_len n - bit_len d;
         e = (if (if 0 \<le> k then d * 2 ^ nat k \<le> n else d \<le> n * 2 ^ nat (- k)) then k else k - 1);
         p = max (e - 52) (- 1074);
         q = (if p < 0 then round_half_even (n * 2 ^ nat (- p)) d
              else round_half_even n (d * 2 ^ nat p))
     in if 1024 < bit_len q + p then None else Some (q, p))"

fun digitpart :: "string \<Rightarrow> string \<times> string" where
  \<comment> \<open>\<^verbatim>\<open>digit (["_"] digit)*\<close>: the digits read and the rest\<close>
  "digitpart [] = ([], [])"
| "digitpart [c] = (if is_digit c then ([c], []) else ([], [c]))"
| "digitpart [c, u] =
     (if is_digit c then (case digitpart [u] of (ds, r') \<Rightarrow> (c # ds, r')) else ([], [c, u]))"
| "digitpart (c # u # d # r) =
     (if is_digit c then
        (if u = CHR ''_'' \<and> is_digit d
         then (case digitpart (d # r) of (ds, r') \<Rightarrow> (c # ds, r'))
         else (case digitpart (u # d # r) of (ds, r') \<Rightarrow> (c # ds, r')))
      else ([], c # u # d # r))"

definition int_of_digits :: "string \<Rightarrow> int" where
  "int_of_digits ds = foldl (\<lambda>a c. 10 * a + (of_char c - 48)) 0 ds"

definition parse_sign :: "string \<Rightarrow> bool \<times> string" where
  "parse_sign s = (case s of
       [] \<Rightarrow> (False, [])
     | c # cs \<Rightarrow> if c = CHR ''-'' then (True, cs) else if c = CHR ''+'' then (False, cs)
                 else (False, s))"

definition parse_exponent :: "string \<Rightarrow> int option" where
  \<comment> \<open>what follows the mantissa: nothing, or \<^verbatim>\<open>("e" | "E") [sign] digitpart\<close>\<close>
  "parse_exponent s = (case s of
       [] \<Rightarrow> Some 0
     | c # cs \<Rightarrow>
         if c = CHR ''e'' \<or> c = CHR ''E'' then
           (case parse_sign cs of (neg, r) \<Rightarrow>
              (case digitpart r of (ds, r') \<Rightarrow>
                 if ds \<noteq> [] \<and> r' = []
                 then Some (if neg then - int_of_digits ds else int_of_digits ds)
                 else None))
         else None)"

definition parse_number :: "string \<Rightarrow> (int \<times> int) option" where
  \<comment> \<open>\<^verbatim>\<open>([digitpart] "." digitpart | digitpart ["."]) [exponent]\<close>, as \<open>(m, x)\<close> for
      \<open>m * 10 ^ x\<close>\<close>
  "parse_number s = (case digitpart s of (ip, r) \<Rightarrow>
     (case r of
        [] \<Rightarrow> if ip = [] then None else Some (int_of_digits ip, 0)
      | c # r1 \<Rightarrow>
          if c = CHR ''.'' then
            (case digitpart r1 of (fp, r2) \<Rightarrow>
               if ip = [] \<and> fp = [] then None
               else (case parse_exponent r2 of
                       None \<Rightarrow> None
                     | Some x \<Rightarrow> Some (int_of_digits (ip @ fp), x - int (length fp))))
          else if ip = [] then None
          else (case parse_exponent r of
                  None \<Rightarrow> None
                | Some x \<Rightarrow> Some (int_of_digits ip, x))))"

definition float_of_ratio :: "bool \<Rightarrow> int \<Rightarrow> int \<Rightarrow> pyfloat" where
  \<comment> \<open>a decimal numeral beyond the largest double reads as an infinity\<close>
  "float_of_ratio neg n d =
     (case round_double n d of None \<Rightarrow> Infinite neg | Some (q, p) \<Rightarrow> Finite neg q p)"

definition py_float :: "string \<Rightarrow> error + pyfloat" where
  \<comment> \<open>\<^verbatim>\<open>float(s)\<close> on a string\<close>
  "py_float s =
     (case parse_sign (rev (dropWhile is_float_space (rev (dropWhile is_float_space s)))) of
        (neg, r) \<Rightarrow>
          if lower r = ''inf'' \<or> lower r = ''infinity'' then Inr (Infinite neg)
          else if lower r = ''nan'' then Inr NotANumber
          else (case parse_number r of
                  None \<Rightarrow> Inl ValueError
                | Some (m, x) \<Rightarrow>
                    Inr (if 0 \<le> x then float_of_ratio neg (m * 10 ^ nat x) 1
                         else float_of_ratio neg m (10 ^ nat (- x)))))"

definition py_float_of_int :: "int \<Rightarrow> error + pyfloat" where
  \<comment> \<open>\<^verbatim>\<open>float(n)\<close> on an integer: too large an integer raises\<close>
  "py_float_of_int n =
     (case round_double \<bar>n\<bar> 1 of
        None \<Rightarrow> Inl OverflowError
      | Some (q, p) \<Rightarrow> Inr (Finite (n < 0) q p))"

definition py_int :: "pyfloat \<Rightarrow> error + int" where
  \<comment> \<open>\<^verbatim>\<open>int(x)\<close> on a float: truncation towards zero\<close>
  "py_int x = (case x of
       Infinite neg \<Rightarrow> Inl OverflowError
     | NotANumber \<Rightarrow> Inl ValueError
     | Finite neg m e \<Rightarrow>
         (let k = (if 0 \<le> e then m * 2 ^ nat e else m div 2 ^ nat (- e))
          in Inr (if neg then - k else k)))"

definition format_2f :: "pyfloat \<Rightarrow> string" where
  \<comment> \<open>the f-string \<^verbatim>\<open>f"{x:.2f}"\<close>\<close>
  "format_2f x = (case x of
       Infinite neg \<Rightarrow> (if neg then ''-inf'' else ''inf'')
     | NotANumber \<Rightarrow> ''nan''
     | Finite neg m e \<Rightarrow>
         (let h = (if 0 \<le> e then m * 2 ^ nat e * 100 else round_half_even (m * 100) (2 ^ nat (- e)))
          in (if neg then ''-'' else []) @ str_digits (h div 100) @ ''.''
             @ [digit_char (h mod 100 div 10), digit_char (h mod 10)]))"

section \<open>The regular expressions of the metadata extractors\<close>

text \<open>
  The three patterns are sequences of literals (matched without regard to case), one
  character of a class, and greedy or lazy repetitions of a class, around one capture
  group.  \<open>re_match\<close> is the backtracking matcher of \<^verbatim>\<open>re\<close> on such a sequence: a greedy
  repetition tries the longer match first, a lazy one the shorter; \<open>re_search\<close> tries
  every start from the left and returns the text of group 1 of the first match.
\<close>

datatype cls = Space | NotNewline | AlnumCI

fun in_cls :: "cls \<Rightarrow> char \<Rightarrow> bool" where
  "in_cls Space c = is_space c"
| "in_cls NotNewline c = (c \<noteq> CHR 0x0A)"
| "in_cls AlnumCI c = is_alnum_ci c"

datatype tok = Lit string | One cls | GreedyStar cls | LazyStar cls | GroupOpen | GroupClose

fun re_match :: "tok list \<Rightarrow> string \<Rightarrow> bool \<Rightarrow> string \<Rightarrow> string option" where
  "re_match [] s rec cap = Some cap"
| "re_match (Lit l # ts) s rec cap =
     (if length l \<le> length s \<and> lower (take (length l) s) = lower l
      then re_match ts (drop (length l) s) rec (if rec then cap @ take (length l) s else cap)
      else None)"
| "re_match (One c # ts) [] rec cap = None"
| "re_match (One c # ts) (x # xs) rec cap =
     (if in_cls c x then re_match ts xs rec (if rec then cap @ [x] else cap) else None)"
| "re_match (GreedyStar c # ts) [] rec cap = re_match ts [] rec cap"
| "re_match (GreedyStar c # ts) (x # xs) rec cap =
     (if in_cls c x then
        (case re_match (GreedyStar c # ts) xs rec (if rec then cap @ [x] else cap) of
           Some g \<Rightarrow> Some g
         | None \<Rightarrow> re_match ts (x # xs) rec cap)
      else re_match ts (x # xs) rec cap)"
| "re_match (LazyStar c # ts) [] rec cap = re_match ts [] rec cap"
| "re_match (LazyStar c # ts) (x # xs) rec cap =
     (case re_match ts (x # xs) rec cap of
        Some g \<Rightarrow> Some g
      | None \<Rightarrow>
          if in_cls c x then re_match (LazyStar c # ts) xs rec (if rec then cap @ [x] else cap)
          else None)"
| "re_match (GroupOpen # ts) s rec cap = re_match ts s True []"
| "re_match (GroupClose # ts) s rec cap = re_match ts s False cap"

fun re_search :: "tok list \<Rightarrow> string \<Rightarrow> string option" where
  "re_search p [] = re_match p [] False []"
| "re_search p (x # xs) =
     (case re_match p (x # xs) False [] of Some g \<Rightarrow> Some g | None \<Rightarrow> re_search p xs)"

definition project_info_re :: "tok list" where
  \<comment> \<open>\<^verbatim>\<open>for the project\s+(.+?)\s+having\<close>\<close>
  "project_info_re = [Lit ''for the project'', One Space, GreedyStar Space,
     GroupOpen, One NotNewline, LazyStar NotNewline, GroupClose,
     One Space, GreedyStar Space, Lit ''having'']"

definition rera_number_re :: "tok list" where
  \<comment> \<open>\<^verbatim>\<open>having maharera registration number\s+([A-Z0-9]+)\s+being developed\<close>\<close>
  "rera_number_re = [Lit ''having maharera registration number'', One Space, GreedyStar Space,
     GroupOpen, One AlnumCI, GreedyStar AlnumCI, GroupClose,
     One Space, GreedyStar Space, Lit ''being developed'']"

definition date_pattern_re :: "tok list" where
  \<comment> \<open>\<^verbatim>\<open>\(as on\s+(.+?)\)\<close>\<close>
  "date_pattern_re = [Lit ''(as on'', One Space, GreedyStar Space,
     GroupOpen, One NotNewline, LazyStar NotNewline, GroupClose, Lit '')'']"

section \<open>The grid\<close>

text \<open>
  A sheet read by pandas is a rectangular frame of cells.  A cell is missing (NaN), a
  string, or an integer; a sheet read with \<^verbatim>\<open>dtype=str\<close>, as Table C is, has only the
  first two.  Cells of other types (a float that is not NaN, a date) are not modelled,
  and neither is a frame of numeric columns only, one of them of floats, whose integers
  pandas hands out as floats.  A grid is the list of its rows.
\<close>

datatype cell = NaN | Str string | Num int

type_synonym row = "cell list"
type_synonym grid = "row list"

fun py_str :: "cell \<Rightarrow> string" where
  \<comment> \<open>\<^verbatim>\<open>str(cell)\<close>\<close>
  "py_str NaN = ''nan''"
| "py_str (Str s) = s"
| "py_str (Num n) = str_int n"

fun notna :: "cell \<Rightarrow> bool" where
  "notna NaN = False"
| "notna (Str s) = True"
| "notna (Num n) = True"

definition cell_value :: "cell \<Rightarrow> string" where
  \<comment> \<open>\<^verbatim>\<open>str(row[col]) if pd.notna(row[col]) else ""\<close>\<close>
  "cell_value c = (if notna c then py_str c else [])"

definition normalize_text :: "string \<Rightarrow> string" where
  "normalize_text text = lower (strip text)"

section \<open>Metadata extraction\<close>

fun first_cell :: "(string \<Rightarrow> bool) \<Rightarrow> grid \<Rightarrow> string option" where
  \<comment> \<open>the rows from the top, the columns of a row from the left: the text of the first
      cell that satisfies the test\<close>
  "first_cell P [] = None"
| "first_cell P (r # rows) =
     (case find P (map cell_value r) of Some v \<Rightarrow> Some v | None \<Rightarrow> first_cell P rows)"

definition extract_project_info :: "grid \<Rightarrow> error + (string \<times> string)" where
  \<comment> \<open>the two names are bound only under their \<^verbatim>\<open>if\<close>; the \<^verbatim>\<open>return\<close> reads both\<close>
  "extract_project_info sheet_data =
     (case first_cell (\<lambda>v. contains ''certificate is being issued for the project'' (lower v))
             sheet_data of
        None \<Rightarrow> Inr ([], [])
      | Some v \<Rightarrow>
          (case re_search project_info_re v of
             None \<Rightarrow> Inl UnboundLocalError
           | Some p \<Rightarrow>
               (case re_search rera_number_re v of
                  None \<Rightarrow> Inl UnboundLocalError
                | Some r \<Rightarrow> Inr (strip p, strip r))))"

fun extract_as_on_date :: "grid \<Rightarrow> string" where
  \<comment> \<open>a cell with the trigger but no match of the pattern does not end the scan\<close>
  "extract_as_on_date [] = []"
| "extract_as_on_date (r # rows) =
     (case List.map_filter (\<lambda>c. if contains ''table b'' (lower (cell_value c))
                                  \<and> contains ''as on'' (lower (cell_value c))
                               then re_search date_pattern_re (cell_value c) else None) r of
        [] \<Rightarrow> extract_as_on_date rows
      | d # ds \<Rightarrow> strip d)"

section \<open>Locating a section, its first data row and its header row\<close>

fun section_scan :: "grid \<Rightarrow> string \<Rightarrow> nat \<Rightarrow> int" where
  "section_scan [] section_keyword index = - 1"
| "section_scan (r # rows) section_keyword index =
     (if list_ex (\<lambda>c. contains (lower section_keyword) (lower (cell_value c))) r
      then int index
      else section_scan rows section_keyword (Suc index))"

definition find_section_start :: "grid \<Rightarrow> string \<Rightarrow> int" where
  "find_section_start sheet_data section_keyword = section_scan sheet_data section_keyword 0"

fun equals_one :: "cell \<Rightarrow> bool" where
  \<comment> \<open>\<^verbatim>\<open>cell_value == 1 or cell_value == "1"\<close>\<close>
  "equals_one NaN = False"
| "equals_one (Str s) = (s = ''1'')"
| "equals_one (Num n) = (n = 1)"

fun data_scan :: "grid \<Rightarrow> nat \<Rightarrow> int" where
  "data_scan [] index = - 1"
| "data_scan (r # rows) index =
     (if list_ex equals_one r then int index else data_scan rows (Suc index))"

definition find_data_start_row :: "grid \<Rightarrow> nat \<Rightarrow> int" where
  \<comment> \<open>\<^verbatim>\<open>for index in range(start_row, len(sheet_data))\<close>\<close>
  "find_data_start_row sheet_data start_row = data_scan (drop start_row sheet_data) start_row"

definition header_keywords :: "string list" where
  "header_keywords = [''sr'', ''flat'', ''carpet'', ''unit'', ''building'', ''wing'']"

definition match_count :: "row \<Rightarrow> nat" where
  "match_count r =
     length (filter (\<lambda>c. list_ex (\<lambda>keyword. contains keyword (lower (strip (py_str c))))
                            header_keywords) r)"

fun header_scan :: "grid \<Rightarrow> nat list \<Rightarrow> int" where
  "header_scan sheet_data [] = - 1"
| "header_scan sheet_data (i # is) =
     (if 2 \<le> match_count (sheet_data ! i) then int i else header_scan sheet_data is)"

definition find_header_row :: "grid \<Rightarrow> nat \<Rightarrow> int" where
  \<comment> \<open>\<^verbatim>\<open>for i in range(max(0, data_start - 3), data_start + 1)\<close>; \<open>data_start\<close> is a row of
      the grid, so every index of the range is\<close>
  "find_header_row sheet_data data_start =
     header_scan sheet_data [data_start - 3 ..< data_start + 1]"

section \<open>Mapping columns\<close>

record col_mapping =
  cm_sr_no :: "nat option"
  cm_flat_no :: "nat option"
  cm_carpet_area :: "nat option"
  cm_unit_type :: "nat option"
  cm_building_no :: "nat option"

definition empty_mapping :: col_mapping where
  "empty_mapping = \<lparr>cm_sr_no = None, cm_flat_no = None, cm_carpet_area = None,
     cm_unit_type = None, cm_building_no = None\<rparr>"

definition map_header :: "nat \<Rightarrow> string \<Rightarrow> col_mapping \<Rightarrow> col_mapping" where
  \<comment> \<open>the \<^verbatim>\<open>if\<close>/\<^verbatim>\<open>elif\<close> chain for header \<open>i\<close>\<close>
  "map_header i header cm =
     (if contains ''sr'' header \<and> contains ''no'' header \<and> cm_sr_no cm = None
        then cm\<lparr>cm_sr_no := Some i\<rparr>
      else if (contains ''flat'' header \<and> contains ''no'' header
               \<or> contains ''shop'' header \<and> contains ''no'' header) \<and> cm_flat_no cm = None
        then cm\<lparr>cm_flat_no := Some i\<rparr>
      else if contains ''carpet'' header \<and> contains ''area'' header \<and> cm_carpet_area cm = None
        then cm\<lparr>cm_carpet_area := Some i\<rparr>
      else if contains ''unit'' header \<and> contains ''type'' header
              \<and> \<not> contains ''apartment'' header \<and> cm_unit_type cm = None
        then cm\<lparr>cm_unit_type := Some i\<rparr>
      else if contains ''building'' header \<and> contains ''no'' header \<and> cm_building_no cm = None
        then cm\<lparr>cm_building_no := Some i\<rparr>
      else if contains ''wing'' header \<and> cm_building_no cm = None
        then cm\<lparr>cm_building_no := Some i\<rparr>
      else cm)"

fun map_columns :: "string list \<Rightarrow> nat \<Rightarrow> col_mapping \<times> bool \<Rightarrow> col_mapping \<times> bool" where
  \<comment> \<open>the loop over \<^verbatim>\<open>enumerate(headers)\<close>; the boolean is \<^verbatim>\<open>self.include_building_column\<close>\<close>
  "map_columns [] i (cm, flag) = (cm, flag)"
| "map_columns (header # headers) i (cm, flag) =
     (let cm' = map_header i header cm
      in map_columns headers (Suc i) (cm', if cm_building_no cm' \<noteq> None then True else flag))"

section \<open>Extracting the records of a section\<close>

record unit_data =
  sr_no :: int
  building_no :: string
  flat_no :: string
  carpet_area :: string
  status :: string
  registration_date :: string

definition iloc :: "row \<Rightarrow> nat \<Rightarrow> cell option" where
  \<comment> \<open>\<^verbatim>\<open>row.iloc[i] if i < len(row) else None\<close>\<close>
  "iloc r i = (if i < length r then Some (r ! i) else None)"

definition str_opt :: "cell option \<Rightarrow> string" where
  "str_opt c = (case c of None \<Rightarrow> ''None'' | Some v \<Rightarrow> py_str v)"

definition isna :: "cell option \<Rightarrow> bool" where
  "isna c = (case c of None \<Rightarrow> True | Some v \<Rightarrow> \<not> notna v)"

fun int_float :: "cell \<Rightarrow> error + int" where
  \<comment> \<open>\<^verbatim>\<open>int(float(cell))\<close>; a NaN cell is a float already\<close>
  "int_float NaN = Inl ValueError"
| "int_float (Str s) = (case py_float s of Inl e \<Rightarrow> Inl e | Inr x \<Rightarrow> py_int x)"
| "int_float (Num n) = (case py_float_of_int n of Inl e \<Rightarrow> Inl e | Inr x \<Rightarrow> py_int x)"

definition field_text :: "row \<Rightarrow> nat \<Rightarrow> string" where
  \<comment> \<open>\<^verbatim>\<open>str(row.iloc[i]).strip() if (i < len(row) and pd.notna(row.iloc[i])) else ""\<close>\<close>
  "field_text r i = (if i < length r \<and> notna (r ! i) then strip (py_str (r ! i)) else [])"

definition make_unit :: "col_mapping \<Rightarrow> string \<Rightarrow> row \<Rightarrow> int \<Rightarrow> unit_data" where
  "make_unit cm section_keyword r n =
     \<lparr>sr_no = n,
      building_no = field_text r (case cm_building_no cm of Some i \<Rightarrow> i | None \<Rightarrow> 1),
      flat_no = field_text r (case cm_flat_no cm of Some i \<Rightarrow> i | None \<Rightarrow> 2),
      carpet_area = field_text r (case cm_carpet_area cm of Some i \<Rightarrow> i | None \<Rightarrow> 3),
      status = lower section_keyword,
      registration_date = []\<rparr>"

fun extract_rows ::
  "col_mapping \<Rightarrow> string \<Rightarrow> row list \<Rightarrow> bool \<Rightarrow> unit_data list \<Rightarrow> error + unit_data list" where
  \<comment> \<open>the loop over the rows from \<open>data_start\<close>; \<^verbatim>\<open>OverflowError\<close> is not among the
      exceptions the loop catches\<close>
  "extract_rows cm section_keyword [] parsing_started units = Inr units"
| "extract_rows cm section_keyword (r # rows) parsing_started units =
     (let sr_no_cell = iloc r (case cm_sr_no cm of Some i \<Rightarrow> i | None \<Rightarrow> 0)
      in if \<not> parsing_started \<and> strip (str_opt sr_no_cell) \<noteq> ''1''
           then extract_rows cm section_keyword rows False units
         else if isna sr_no_cell \<or> strip (str_opt sr_no_cell) = [] then Inr units
         else (case sr_no_cell of
                 None \<Rightarrow> Inr units
               | Some c \<Rightarrow>
                   (case int_float c of
                      Inl OverflowError \<Rightarrow> Inl OverflowError
                    | Inl e \<Rightarrow> Inr units
                    | Inr n \<Rightarrow>
                        extract_rows cm section_keyword rows True
                          (units @ [make_unit cm section_keyword r n]))))"

text \<open>
  The converter object.  \<^verbatim>\<open>unit_sections\<close> is a dictionary: a list of keys with their
  values, in the order of insertion.
\<close>

record converter =
  include_building_column :: bool
  project_name :: string
  rera_number :: string
  as_on_date :: string
  unit_sections :: "(string \<times> unit_data list) list"

definition sections :: "string list" where
  "sections = [''sold'', ''unsold'', ''tenant'', ''landowner'', ''rehab'', ''cidco'', ''pap'']"

definition new_converter :: converter where
  "new_converter = \<lparr>include_building_column = False, project_name = [], rera_number = [],
     as_on_date = [], unit_sections = map (\<lambda>s. (s, [])) sections\<rparr>"

definition section_mapping :: "grid \<Rightarrow> string \<Rightarrow> (nat \<times> col_mapping \<times> bool) option" where
  \<comment> \<open>the steps of \<^verbatim>\<open>extract_unit_data\<close> before its row loop: the first data row, the
      column mapping of the header row, and whether the loop over the headers sets the
      flag; \<open>None\<close> where the function returns \<^verbatim>\<open>[]\<close> early\<close>
  "section_mapping sheet_data section_keyword =
     (let section_start = find_section_start sheet_data section_keyword in
      if section_start = - 1 then None else
      let data_start = find_data_start_row sheet_data (nat section_start) in
      if data_start = - 1 then None else
      let header_row_index = find_header_row sheet_data (nat data_start) in
      if header_row_index = - 1 then None else
      let headers = map (\<lambda>c. normalize_text (cell_value c)) (sheet_data ! nat header_row_index);
          (cm, flag) = map_columns headers 0 (empty_mapping, False)
      in Some (nat data_start, cm, flag))"

definition extract_unit_data ::
  "grid \<Rightarrow> string \<Rightarrow> converter \<Rightarrow> (error + unit_data list) \<times> converter" where
  "extract_unit_data sheet_data section_keyword self =
     (case section_mapping sheet_data section_keyword of
        None \<Rightarrow> (Inr [], self)
      | Some (data_start, cm, flag) \<Rightarrow>
          (extract_rows cm section_keyword (drop data_start sheet_data) False [],
           self\<lparr>include_building_column := (if flag then True else include_building_column self)\<rparr>))"

fun dict_set :: "'k \<Rightarrow> 'v \<Rightarrow> ('k \<times> 'v) list \<Rightarrow> ('k \<times> 'v) list" where
  \<comment> \<open>\<^verbatim>\<open>d[k] = v\<close>\<close>
  "dict_set k v [] = [(k, v)]"
| "dict_set k v ((k', v') # d) = (if k' = k then (k, v) # d else (k', v') # dict_set k v d)"

section \<open>Processing a workbook\<close>

text \<open>
  Reading the file is the part of pandas: a sheet comes with its name and its grid as
  \<^verbatim>\<open>pd.read_excel(..., header=None)\<close> gives it, and as it gives it with \<^verbatim>\<open>dtype=str\<close>.
  The result of \<^verbatim>\<open>extract_from_filename\<close> is a parameter, \<open>fallback\<close>.
\<close>

record sheet =
  sh_name :: string
  sh_data :: grid
  sh_data_str :: grid

fun extract_sections :: "grid \<Rightarrow> string list \<Rightarrow> converter \<Rightarrow> error option \<times> converter" where
  \<comment> \<open>\<^verbatim>\<open>for section in sections: self.unit_sections[section] = self.extract_unit_data(...)\<close>\<close>
  "extract_sections table_c_data [] self = (None, self)"
| "extract_sections table_c_data (section # rest) self =
     (case extract_unit_data table_c_data section self of
        (Inl e, self') \<Rightarrow> (Some e, self')
      | (Inr units, self') \<Rightarrow>
          extract_sections table_c_data rest
            (self'\<lparr>unit_sections := dict_set section units (unit_sections self')\<rparr>))"

definition find_sheet :: "string \<Rightarrow> sheet list \<Rightarrow> sheet option" where
  "find_sheet pat sheets = find (\<lambda>sh. contains pat (lower (sh_name sh))) sheets"

definition filename_fallback :: "string \<times> string \<times> string \<Rightarrow> converter \<Rightarrow> converter" where
  \<comment> \<open>the fallback to the file name, lines 394 to 404\<close>
  "filename_fallback fallback self =
     (if project_name self = [] \<or> rera_number self = [] \<or> as_on_date self = [] then
        (case fallback of (fallback_project, fallback_rera, fallback_date) \<Rightarrow>
           let self1 = (if project_name self = [] then self\<lparr>project_name := fallback_project\<rparr>
                        else self);
               self2 = (if rera_number self1 = [] then self1\<lparr>rera_number := fallback_rera\<rparr>
                        else self1)
           in if as_on_date self2 = [] then self2\<lparr>as_on_date := fallback_date\<rparr> else self2)
      else self)"

definition process_form3_file ::
  "sheet list \<Rightarrow> string \<times> string \<times> string \<Rightarrow> converter \<Rightarrow> bool \<times> converter" where
  \<comment> \<open>an exception anywhere ends the function with \<^verbatim>\<open>False\<close>, the object as it is then\<close>
  "process_form3_file sheets fallback self =
     (case (case find_sheet ''table a'' sheets of
              None \<Rightarrow> Inr self
            | Some sh \<Rightarrow>
                (case extract_project_info (sh_data sh) of
                   Inl e \<Rightarrow> Inl e
                 | Inr (p, r) \<Rightarrow> Inr (self\<lparr>project_name := p, rera_number := r\<rparr>))) of
        Inl e \<Rightarrow> (False, self)
      | Inr self1 \<Rightarrow>
          let self2 = (case find_sheet ''table b'' sheets of
                         None \<Rightarrow> self1
                       | Some sh \<Rightarrow> self1\<lparr>as_on_date := extract_as_on_date (sh_data sh)\<rparr>)
          in (case (case find_sheet ''table c'' sheets of
                      None \<Rightarrow> (None, self2)
                    | Some sh \<Rightarrow> extract_sections (sh_data_str sh) sections self2) of
                (Some e, self3) \<Rightarrow> (False, self3)
              | (None, self3) \<Rightarrow> (True, filename_fallback fallback self3)))"

section \<open>The recovery chain\<close>

fun recover_sections :: "grid \<Rightarrow> string list \<Rightarrow> converter \<Rightarrow> error option \<times> converter" where
  \<comment> \<open>the loop over the sections inside \<^verbatim>\<open>attempt_data_recovery\<close>\<close>
  "recover_sections sheet_data [] converter = (None, converter)"
| "recover_sections sheet_data (section # rest) converter =
     (case map_of (unit_sections converter) section of
        None \<Rightarrow> (Some KeyError, converter)
      | Some current \<Rightarrow>
          if current = [] then
            (case extract_unit_data sheet_data section converter of
               (Inl e, converter') \<Rightarrow> (Some e, converter')
             | (Inr units, converter') \<Rightarrow>
                 recover_sections sheet_data rest
                   (if units \<noteq> []
                    then converter'\<lparr>unit_sections := dict_set section units (unit_sections converter')\<rparr>
                    else converter'))
          else recover_sections sheet_data rest converter)"

definition recover_sheet :: "grid \<Rightarrow> converter \<Rightarrow> converter" where
  \<comment> \<open>the body of the loop over the sheets, with its \<^verbatim>\<open>try\<close>: an exception leaves the
      sheet, the object as it is then\<close>
  "recover_sheet sheet_data converter =
     (case (if project_name converter = [] \<or> rera_number converter = [] then
              (case extract_project_info sheet_data of
                 Inl e \<Rightarrow> Inl e
               | Inr (p, r) \<Rightarrow>
                   let c1 = (if p \<noteq> [] then converter\<lparr>project_name := p\<rparr> else converter)
                   in Inr (if r \<noteq> [] then c1\<lparr>rera_number := r\<rparr> else c1))
            else Inr converter) of
        Inl e \<Rightarrow> converter
      | Inr c2 \<Rightarrow>
          let c3 = (if as_on_date c2 = [] then
                      (let date_info = extract_as_on_date sheet_data
                       in if date_info \<noteq> [] then c2\<lparr>as_on_date := date_info\<rparr> else c2)
                    else c2)
          in snd (recover_sections sheet_data sections c3))"

definition attempt_data_recovery :: "sheet list \<Rightarrow> converter \<Rightarrow> bool \<times> converter" where
  "attempt_data_recovery sheets converter =
     (let c = fold (\<lambda>sh. recover_sheet (sh_data sh)) sheets converter;
          has_basic_info = (project_name c \<noteq> [] \<or> rera_number c \<noteq> []);
          has_units = list_ex (\<lambda>(k, units). units \<noteq> []) (unit_sections c)
      in (has_basic_info \<or> has_units, c))"

section \<open>The table of the output document\<close>

text \<open>
  Of \<^verbatim>\<open>create_circular29_excel\<close>, the table: the header cells and, for every unit, the
  values written to the cells of its row, from column 1 on.
\<close>

datatype xl = XInt nat | XStr string

definition table_headers :: "bool \<Rightarrow> string list" where
  "table_headers include_building_no =
     [''Sr.No''] @ (if include_building_no then [''Building No''] else [])
     @ [''Flat No./ Shop No'', ''Carpet Area In Sq.Mtrs '',
        ''Sold/ Booked /Unsold Reserved/ Rehab/ Mortgaged/ Not for Sale'',
        ''Registration Date of Sub Registrar'']"

definition section_order :: "string list" where
  "section_order = [''sold'', ''unsold'', ''landowner'', ''tenant'', ''rehab'', ''cidco'', ''pap'']"

definition render_carpet :: "string \<Rightarrow> string" where
  \<comment> \<open>\<^verbatim>\<open>try: carpet_val = f"{float(carpet_val):.2f}"\<close>, \<^verbatim>\<open>except: pass\<close>\<close>
  "render_carpet carpet_val =
     (case py_float carpet_val of Inl e \<Rightarrow> carpet_val | Inr x \<Rightarrow> format_2f x)"

definition status_display :: "string \<Rightarrow> string" where
  "status_display section =
     (if section \<in> set [''cidco'', ''pap''] then upper section else capitalize section)"

definition reg_date_val :: "string \<Rightarrow> string" where
  "reg_date_val section = (if section = ''sold'' then [] else ''NA'')"

definition render_unit :: "bool \<Rightarrow> string \<Rightarrow> nat \<Rightarrow> unit_data \<Rightarrow> xl list" where
  "render_unit include_building_no section unit_counter unit =
     [XInt unit_counter]
     @ (if include_building_no then [XStr (strip (building_no unit))] else [])
     @ [XStr (strip (flat_no unit)), XStr (render_carpet (carpet_area unit)),
        XStr (status_display section), XStr (reg_date_val section)]"

fun render_units :: "bool \<Rightarrow> string \<Rightarrow> unit_data list \<Rightarrow> nat \<Rightarrow> xl list list \<times> nat" where
  \<comment> \<open>\<^verbatim>\<open>for unit in units\<close>: the rows, and the counter after them\<close>
  "render_units include_building_no section [] unit_counter = ([], unit_counter)"
| "render_units include_building_no section (unit # units) unit_counter =
     (case render_units include_building_no section units (unit_counter + 1) of
        (rows, n) \<Rightarrow> (render_unit include_building_no section unit_counter unit # rows, n))"

definition section_units :: "converter \<Rightarrow> string \<Rightarrow> unit_data list" where
  \<comment> \<open>\<^verbatim>\<open>self.unit_sections.get(section, [])\<close>\<close>
  "section_units self section =
     (case map_of (unit_sections self) section of None \<Rightarrow> [] | Some units \<Rightarrow> units)"

fun render_sections :: "converter \<Rightarrow> string list \<Rightarrow> nat \<Rightarrow> xl list list" where
  \<comment> \<open>\<^verbatim>\<open>for section in section_order\<close>\<close>
  "render_sections self [] unit_counter = []"
| "render_sections self (section # rest) unit_counter =
     (case render_units (include_building_column self) section (section_units self section)
             unit_counter of
        (rows, n) \<Rightarrow> rows @ render_sections self rest n)"

definition table_rows :: "converter \<Rightarrow> xl list list" where
  \<comment> \<open>the rows under the header row; \<^verbatim>\<open>unit_counter = 1\<close> before the loop\<close>
  "table_rows self = render_sections self section_order 1"

section \<open>Notions of the specification\<close>

text \<open>
  The units of a converter in the order of presentation: the sections in the order
  sold, unsold, landowner, tenant, rehab, cidco, pap, the units of a section in the order
  of extraction, each with the name of its section.
\<close>

definition units_in_order :: "converter \<Rightarrow> (string \<times> unit_data) list" where
  "units_in_order self =
     concat (map (\<lambda>s. map (\<lambda>u. (s, u)) (section_units self s))
       [''sold'', ''unsold'', ''landowner'', ''tenant'', ''rehab'', ''cidco'', ''pap''])"

text \<open>
  The synonyms of the section labels, as \<^verbatim>\<open>ConversionConfig.section_keywords\<close> lists them,
  and the section locator as the specification words it: the first row with a cell that
  contains any synonym of the label, without regard to case, or the sentinel.
\<close>

definition section_keywords :: "(string \<times> string list) list" where
  "section_keywords =
     [(''sold'', [''sold'', ''booked'']),
      (''unsold'', [''unsold'', ''available'']),
      (''tenant'', [''tenant'', ''rented'']),
      (''landowner'', [''landowner'', ''land owner'', ''owner'']),
      (''rehab'', [''existing'', ''members'', ''member'']),
      (''cidco'', [''CIDCO'', ''NMMC'']),
      (''pap'', [''PAP''])]"

fun synonym_scan :: "grid \<Rightarrow> string list \<Rightarrow> nat \<Rightarrow> int" where
  "synonym_scan [] synonyms index = - 1"
| "synonym_scan (r # rows) synonyms index =
     (if list_ex (\<lambda>c. list_ex (\<lambda>k. contains (lower k) (lower (cell_value c))) synonyms) r
      then int index
      else synonym_scan rows synonyms (Suc index))"

definition spec_locate_section :: "grid \<Rightarrow> string \<Rightarrow> int" where
  "spec_locate_section g label =
     synonym_scan g (case map_of section_keywords label of None \<Rightarrow> [] | Some ks \<Rightarrow> ks) 0"

text \<open>
  The header row as the specification words it: the first row of the window from
  \<open>section_start - 3\<close> to \<open>section_start\<close> with at least two cells that contain one of
  the tokens serial, flat, carpet, unit, building, wing.
\<close>

definition spec_hits :: "row \<Rightarrow> nat" where
  "spec_hits r =
     length (filter (\<lambda>c. list_ex (\<lambda>k. contains k (normalize_text (py_str c)))
                            [''serial'', ''flat'', ''carpet'', ''unit'', ''building'', ''wing'']) r)"

definition spec_header_row :: "grid \<Rightarrow> nat \<Rightarrow> int" where
  "spec_header_row g section_start =
     (case find (\<lambda>i. i < length g \<and> 2 \<le> spec_hits (g ! i))
             [section_start - 3 ..< section_start + 1] of
        None \<Rightarrow> - 1
      | Some i \<Rightarrow> int i)"

text \<open>
  Whether the column mapping of a section located a building or wing column; the column
  mapping of a header row; the columns the row loop reads, and two rows with the same
  cells there.
\<close>

definition building_located :: "grid \<Rightarrow> string \<Rightarrow> bool" where
  "building_located g section =
     (case section_mapping g section of
        None \<Rightarrow> False
      | Some (d, cm, f) \<Rightarrow> cm_building_no cm \<noteq> None)"

definition header_mapping :: "row \<Rightarrow> col_mapping" where
  "header_mapping header_row =
     fst (map_columns (map (\<lambda>c. normalize_text (cell_value c)) header_row) 0
            (empty_mapping, False))"

definition used_columns :: "col_mapping \<Rightarrow> nat list" where
  "used_columns cm =
     [case cm_sr_no cm of Some i \<Rightarrow> i | None \<Rightarrow> 0,
      case cm_building_no cm of Some i \<Rightarrow> i | None \<Rightarrow> 1,
      case cm_flat_no cm of Some i \<Rightarrow> i | None \<Rightarrow> 2,
      case cm_carpet_area cm of Some i \<Rightarrow> i | None \<Rightarrow> 3]"

definition same_used_cells :: "col_mapping \<Rightarrow> row \<Rightarrow> row \<Rightarrow> bool" where
  "same_used_cells cm r1 r2 = list_all (\<lambda>i. iloc r1 i = iloc r2 i) (used_columns cm)"

text \<open>
  The serial cell of a row and what the row loop makes of it: the serial number, or the
  exception of \<^verbatim>\<open>int(float(...))\<close>; a missing or blank cell counts as \<^verbatim>\<open>ValueError\<close> here,
  the loop leaves at both in the same way.
\<close>

definition serial_cell :: "col_mapping \<Rightarrow> row \<Rightarrow> cell option" where
  "serial_cell cm r = iloc r (case cm_sr_no cm of Some i \<Rightarrow> i | None \<Rightarrow> 0)"

definition arms :: "col_mapping \<Rightarrow> row \<Rightarrow> bool" where
  "arms cm r = (strip (str_opt (serial_cell cm r)) = ''1'')"

definition serial_outcome :: "col_mapping \<Rightarrow> row \<Rightarrow> error + int" where
  "serial_outcome cm r =
     (case serial_cell cm r of
        None \<Rightarrow> Inl ValueError
      | Some c \<Rightarrow> if \<not> notna c \<or> strip (py_str c) = [] then Inl ValueError else int_float c)"

definition serial_valid :: "col_mapping \<Rightarrow> row \<Rightarrow> bool" where
  "serial_valid cm r = (case serial_outcome cm r of Inl e \<Rightarrow> False | Inr n \<Rightarrow> True)"

definition unit_of_row :: "col_mapping \<Rightarrow> string \<Rightarrow> row \<Rightarrow> unit_data" where
  "unit_of_row cm section_keyword r =
     make_unit cm section_keyword r (case serial_outcome cm r of Inl e \<Rightarrow> 0 | Inr n \<Rightarrow> n)"

text \<open>
  The hundredths of a finite double \<open>m * 2 ^ e\<close>: the integer nearest to a hundred times
  its value, the even one of the two when the value lies half way between them.
\<close>

definition nearest_hundredths :: "int \<Rightarrow> int \<Rightarrow> int \<Rightarrow> bool" where
  "nearest_hundredths m e h =
     (if 0 \<le> e then h = 100 * m * 2 ^ nat e
      else 2 * \<bar>h * 2 ^ nat (- e) - 100 * m\<bar> \<le> 2 ^ nat (- e)
           \<and> (2 * \<bar>h * 2 ^ nat (- e) - 100 * m\<bar> = 2 ^ nat (- e) \<longrightarrow> even h))"

section \<open>Example inputs\<close>

definition unit_A :: unit_data where
  "unit_A = \<lparr>sr_no = 7, building_no = ''W1'', flat_no = ''A'', carpet_area = ''23.5'',
     status = ''sold'', registration_date = []\<rparr>"

definition unit_B :: unit_data where
  "unit_B = \<lparr>sr_no = 8, building_no = ''W1'', flat_no = ''B'', carpet_area = ''n/a'',
     status = ''sold'', registration_date = []\<rparr>"

definition unit_C :: unit_data where
  "unit_C = \<lparr>sr_no = 1, building_no = ''W2'', flat_no = ''C'', carpet_area = ''40'',
     status = ''unsold'', registration_date = []\<rparr>"

definition conv_abc :: converter where
  "conv_abc = new_converter\<lparr>unit_sections :=
     dict_set ''unsold'' [unit_C] (dict_set ''sold'' [unit_A, unit_B] (unit_sections new_converter))\<rparr>"

definition unit_D :: unit_data where
  "unit_D = \<lparr>sr_no = 1, building_no = [], flat_no = ''D'', carpet_area = ''12'',
     status = ''cidco'', registration_date = []\<rparr>"

definition conv_ad :: converter where
  "conv_ad = new_converter\<lparr>unit_sections :=
     dict_set ''cidco'' [unit_D] (dict_set ''sold'' [unit_A] (unit_sections new_converter))\<rparr>"

definition grid_booked :: grid where
  "grid_booked = [[Str ''Details of Booked flats'', NaN], [Str ''Sold flats'', NaN]]"

definition grid_header :: grid where
  "grid_header =
     [[Str ''Sold flats'', NaN],
      [Str ''Sr No'', Str ''Flat No''],
      [Str ''1'', Str ''101'']]"

definition grid_no_having :: grid where
  "grid_no_having = [[Str ''This certificate is being issued for the project Alpha'']]"

definition grid_beta :: grid where
  "grid_beta = [[Str ''This certificate is being issued for the project Beta having MahaRERA registration number P123 being developed by X'']]"

definition conv_alpha :: converter where
  "conv_alpha = new_converter\<lparr>project_name := ''Alpha''\<rparr>"

definition grid_serials :: "cell list \<Rightarrow> grid" where
  \<comment> \<open>a sold section with the given cells in its serial column\<close>
  "grid_serials serials =
     [[Str ''Sold flats'', NaN, NaN, NaN],
      [Str ''Sr No'', Str ''Wing'', Str ''Flat No'', Str ''Carpet Area'']]
     @ map (\<lambda>c. [c, Str ''A'', Str ''101'', Str ''23.5'']) serials"

definition grid_two_sections :: grid where
  "grid_two_sections =
     [[Str ''Sold flats'', NaN, NaN, NaN],
      [Str ''Sr No'', Str ''Wing'', Str ''Flat No'', Str ''Carpet Area''],
      [Str ''1'', Str ''A'', Str ''101'', Str ''23.5''],
      [NaN, NaN, NaN, NaN],
      [Str ''Unsold flats'', NaN, NaN, NaN],
      [Str ''Sr No'', Str ''Flat No'', Str ''Carpet Area'', NaN],
      [Str ''1'', Str ''201'', Str ''30'', NaN]]"

definition book_two_sections :: "sheet list" where
  "book_two_sections =
     [\<lparr>sh_name = ''Table C'', sh_data = grid_two_sections, sh_data_str = grid_two_sections\<rparr>]"

definition grid_remarks :: "string \<Rightarrow> grid" where
  \<comment> \<open>a sold section with a fifth column of remarks\<close>
  "grid_remarks remark =
     [[Str ''Sold flats'', NaN, NaN, NaN, NaN],
      [Str ''Sr No'', Str ''Wing'', Str ''Flat No'', Str ''Carpet Area'', Str ''Remarks''],
      [Str ''1'', Str ''A'', Str ''101'', Str ''23.5'', Str remark],
      [Str ''2'', Str ''A'', Str ''102'', Str ''24'', NaN]]"

definition book_beta :: "sheet list" where
  \<comment> \<open>a workbook of one sheet, not named after a table\<close>
  "book_beta = [\<lparr>sh_name = ''Sheet1'', sh_data = grid_beta, sh_data_str = grid_beta\<rparr>]"

definition book_serials :: "cell list \<Rightarrow> sheet list" where
  "book_serials serials =
     [\<lparr>sh_name = ''Table C'', sh_data = grid_serials serials,
       sh_data_str = grid_serials serials\<rparr>]"

definition conv_two_sections :: converter where
  "conv_two_sections = snd (process_form3_file book_two_sections ([], [], []) new_converter)"

section \<open>Lemmas on the output table\<close>

lemma render_units_eq:
  "render_units inc sec us n =
     (map (\<lambda>(i, u). render_unit inc sec i u) (zip [n ..< n + length us] us), n + length us)"
proof (induction us arbitrary: n)
  case Nil
  then show ?case by simp
next
  case (Cons u us)
  have "[n ..< n + length (u # us)] = n # [Suc n ..< Suc n + length us]"
    by (subst upt_rec) simp
  then show ?case using Cons.IH [of "Suc n"] by simp
qed

lemma render_sections_eq:
  "render_sections self secs n =
     map (\<lambda>(i, s, u). render_unit (include_building_column self) s i u)
       (zip [n ..< n + length (concat (map (\<lambda>s. map (Pair s) (section_units self s)) secs))]
            (concat (map (\<lambda>s. map (Pair s) (section_units self s)) secs)))"
proof (induction secs arbitrary: n)
  case Nil
  then show ?case by simp
next
  case (Cons s secs)
  define us where "us = section_units self s"
  define rest where "rest = concat (map (\<lambda>s. map (Pair s) (section_units self s)) secs)"
  define F where "F = (\<lambda>(i, s, u). render_unit (include_building_column self) s i u)"
  have t: "concat (map (\<lambda>s. map (Pair s) (section_units self s)) (s # secs))
      = map (Pair s) us @ rest"
    by (simp add: us_def rest_def)
  have split: "[n ..< n + length (map (Pair s) us @ rest)]
      = [n ..< n + length us] @ [n + length us ..< n + length us + length rest]"
    using upt_add_eq_append [of n "n + length us" "length rest"] by (simp add: add.assoc)
  have z: "map F (zip [n ..< n + length us] (map (Pair s) us))
      = map (\<lambda>(i, u). render_unit (include_building_column self) s i u)
          (zip [n ..< n + length us] us)"
    by (simp add: zip_map2 F_def case_prod_unfold del: upt_Suc)
  have ih: "render_sections self secs (n + length us)
      = map F (zip [n + length us ..< n + length us + length rest] rest)"
    using Cons.IH [of "n + length us"] by (simp only: F_def rest_def)
  have "render_sections self (s # secs) n
      = map (\<lambda>(i, u). render_unit (include_building_column self) s i u)
          (zip [n ..< n + length us] us)
        @ render_sections self secs (n + length us)"
    by (simp add: render_units_eq us_def del: upt_Suc)
  also have "\<dots> = map F (zip [n ..< n + length us] (map (Pair s) us))
        @ map F (zip [n + length us ..< n + length us + length rest] rest)"
    by (simp only: z ih)
  also have "\<dots> = map F (zip [n ..< n + length (map (Pair s) us @ rest)] (map (Pair s) us @ rest))"
    unfolding split by (simp add: zip_append del: upt_Suc)
  finally show ?case unfolding t F_def .
qed

lemma table_rows_eq:
  "table_rows self =
     map (\<lambda>(i, s, u). render_unit (include_building_column self) s i u)
       (zip [1 ..< 1 + length (units_in_order self)] (units_in_order self))"
  unfolding table_rows_def units_in_order_def section_order_def by (rule render_sections_eq)

lemma length_table_rows: "length (table_rows self) = length (units_in_order self)"
  by (simp add: table_rows_eq del: upt_Suc)

lemma table_rows_nth:
  assumes "k < length (units_in_order self)"
  shows "table_rows self ! k =
     render_unit (include_building_column self) (fst (units_in_order self ! k)) (k + 1)
       (snd (units_in_order self ! k))"
  using assms by (simp add: table_rows_eq case_prod_unfold del: upt_Suc)

lemma is_digit_digit_char: "0 \<le> d \<Longrightarrow> d < 10 \<Longrightarrow> is_digit (digit_char d)"
  by (simp add: is_digit_def digit_char_def)

lemma str_digits_digits:
  "0 \<le> n \<Longrightarrow> str_digits n \<noteq> [] \<and> (\<forall>c \<in> set (str_digits n). is_digit c)"
proof (induction n rule: str_digits.induct)
  case (1 n)
  show ?case
  proof (cases "n < 10")
    case True
    then show ?thesis using 1(2) by (subst (1 2) str_digits.simps) (simp add: is_digit_digit_char)
  next
    case False
    then have "0 \<le> n div 10" by simp
    then show ?thesis using False 1
      by (subst (1 2) str_digits.simps) (simp add: is_digit_digit_char)
  qed
qed

lemma digitpart_digits: "digitpart s = (ds, r) \<Longrightarrow> \<forall>c \<in> set ds. is_digit c"
proof (induction s arbitrary: ds r rule: digitpart.induct)
  case 1
  then show ?case by simp
next
  case (2 c)
  then show ?case by (auto split: if_splits)
next
  case (3 c u)
  show ?case
  proof (cases "is_digit c")
    case False
    then show ?thesis using "3.prems" by simp
  next
    case c: True
    obtain ds' r' where e: "digitpart [u] = (ds', r')" by (cases "digitpart [u]")
    then have "ds = c # ds'" using "3.prems" c by simp
    moreover have "\<forall>x \<in> set ds'. is_digit x" using "3.IH" c e by blast
    ultimately show ?thesis using c by simp
  qed
next
  case (4 c u d r0)
  show ?case
  proof (cases "is_digit c")
    case False
    then show ?thesis using "4.prems" by simp
  next
    case c: True
    show ?thesis
    proof (cases "u = CHR ''_'' \<and> is_digit d")
      case True
      obtain ds' r' where e: "digitpart (d # r0) = (ds', r')" by (cases "digitpart (d # r0)")
      then have "ds = c # ds'" using "4.prems" c True by simp
      moreover have "\<forall>x \<in> set ds'. is_digit x" using "4.IH"(1) c True e by blast
      ultimately show ?thesis using c by simp
    next
      case False
      obtain ds' r' where e: "digitpart (u # d # r0) = (ds', r')"
        by (cases "digitpart (u # d # r0)")
      then have "ds = c # ds'" using "4.prems" c False by auto
      moreover have "\<forall>x \<in> set ds'. is_digit x" using "4.IH"(2) c False e by blast
      ultimately show ?thesis using c by simp
    qed
  qed
qed

lemma int_of_digits_foldl:
  "0 \<le> (a::int) \<Longrightarrow> \<forall>c \<in> set ds. is_digit c \<Longrightarrow>
     0 \<le> foldl (\<lambda>a c. 10 * a + (of_char c - 48)) a ds"
proof (induction ds arbitrary: a)
  case Nil
  then show ?case by simp
next
  case (Cons c ds)
  from Cons.prems have "0 \<le> 10 * a + (of_char c - 48)" by (simp add: is_digit_def Let_def)
  then show ?case using Cons by simp
qed

lemma int_of_digits_nonneg: "\<forall>c \<in> set ds. is_digit c \<Longrightarrow> 0 \<le> int_of_digits ds"
  unfolding int_of_digits_def by (rule int_of_digits_foldl) simp_all

lemma parse_number_nonneg: "parse_number s = Some (m, x) \<Longrightarrow> 0 \<le> m"
  unfolding parse_number_def
  by (auto split: prod.splits list.splits if_splits option.splits
           dest!: digitpart_digits intro!: int_of_digits_nonneg)

lemma round_half_even_nonneg: "0 \<le> a \<Longrightarrow> 0 < b \<Longrightarrow> 0 \<le> round_half_even a b"
  by (simp add: round_half_even_def Let_def pos_imp_zdiv_nonneg_iff)

lemma round_double_nonneg:
  "round_double n d = Some (q, p) \<Longrightarrow> 0 \<le> n \<Longrightarrow> 0 < d \<Longrightarrow> 0 \<le> q"
  unfolding round_double_def
  by (auto simp: Let_def split: if_splits intro!: round_half_even_nonneg)

lemma py_float_finite_nonneg: "py_float s = Inr (Finite neg m e) \<Longrightarrow> 0 \<le> m"
  unfolding py_float_def float_of_ratio_def
  by (auto split: prod.splits if_splits option.splits
           dest!: parse_number_nonneg dest: round_double_nonneg)

lemma of_char_digit_char: "0 \<le> d \<Longrightarrow> d < 10 \<Longrightarrow> (of_char (digit_char d) :: int) = 48 + d"
  by (simp add: digit_char_def)

lemma int_of_digits_snoc:
  "int_of_digits (ds @ [c]) = 10 * int_of_digits ds + (of_char c - 48)"
  by (simp add: int_of_digits_def)

lemma int_of_digits_str_digits: "0 \<le> n \<Longrightarrow> int_of_digits (str_digits n) = n"
proof (induction n rule: str_digits.induct)
  case (1 n)
  show ?case
  proof (cases "n < 10")
    case True
    then show ?thesis using 1(2)
      by (subst str_digits.simps) (simp add: int_of_digits_def of_char_digit_char)
  next
    case False
    then have "int_of_digits (str_digits (n div 10)) = n div 10" using 1 by simp
    then show ?thesis using False
      by (subst str_digits.simps) (simp add: int_of_digits_snoc of_char_digit_char)
  qed
qed

lemma hd_str_digits: "1 \<le> n \<Longrightarrow> hd (str_digits n) \<noteq> CHR ''0''"
proof (induction n rule: str_digits.induct)
  case (1 n)
  show ?case
  proof (cases "n < 10")
    case True
    then have "(of_char (digit_char n) :: int) \<noteq> of_char CHR ''0''"
      using 1(2) by (simp add: of_char_digit_char)
    then have "digit_char n \<noteq> CHR ''0''" by metis
    then show ?thesis using True by (subst str_digits.simps) simp
  next
    case False
    then have "hd (str_digits (n div 10)) \<noteq> CHR ''0''" using 1 by simp
    moreover have "str_digits (n div 10) \<noteq> []" using False str_digits_digits [of "n div 10"] by simp
    ultimately show ?thesis using False by (subst str_digits.simps) simp
  qed
qed

lemma str_digits_no_leading_zero:
  "0 \<le> n \<Longrightarrow> length (str_digits n) = 1 \<or> hd (str_digits n) \<noteq> CHR ''0''"
proof (cases "n = 0")
  case True
  then show ?thesis by (subst str_digits.simps) simp
next
  case False
  assume "0 \<le> n"
  then have "1 \<le> n" using False by simp
  then show ?thesis using hd_str_digits by blast
qed

lemma hundredths_digits:
  assumes "0 \<le> h"
  shows "int_of_digits (str_digits (h div 100) @ [digit_char (h mod 100 div 10), digit_char (h mod 10)]) = h"
proof -
  have d: "0 \<le> h div 100" using assms by simp
  have a: "0 \<le> h mod 100 div 10" "h mod 100 div 10 < 10" "0 \<le> h mod 10" "h mod 10 < 10"
    by simp_all
  have "int_of_digits (str_digits (h div 100) @ [digit_char (h mod 100 div 10), digit_char (h mod 10)])
      = int_of_digits ((str_digits (h div 100) @ [digit_char (h mod 100 div 10)]) @ [digit_char (h mod 10)])"
    by simp
  also have "\<dots> = 10 * (10 * (h div 100) + h mod 100 div 10) + h mod 10"
    unfolding int_of_digits_snoc using a d
    by (simp add: of_char_digit_char int_of_digits_str_digits)
  also have "\<dots> = h"
  proof -
    define A where "A = h div 100"
    define B where "B = h mod 100"
    define C where "C = B div 10"
    define D where "D = h mod 10"
    have "h = 100 * A + B" by (simp add: A_def B_def)
    moreover have "B mod 10 = D" by (simp add: B_def D_def mod_mod_cancel)
    then have "B = 10 * C + D" using mult_div_mod_eq [of 10 B] by (simp add: C_def)
    ultimately have "10 * (10 * A + C) + D = h" by (simp add: algebra_simps)
    then show ?thesis by (simp add: A_def B_def C_def D_def)
  qed
  finally show ?thesis .
qed

lemma round_half_even_nearest:
  assumes "0 < b"
  shows "2 * \<bar>round_half_even a b * b - a\<bar> \<le> b
    \<and> (2 * \<bar>round_half_even a b * b - a\<bar> = b \<longrightarrow> even (round_half_even a b))"
proof -
  define q where "q = a div b"
  define r where "r = a mod b"
  have a: "a = q * b + r" by (simp add: q_def r_def)
  have r: "0 \<le> r" "r < b" using assms by (simp_all add: r_def)
  have up: "(q + 1) * b - a = b - r" by (simp add: a algebra_simps)
  have dn: "q * b - a = - r" by (simp add: a)
  show ?thesis
  proof (cases "2 * r < b")
    case True
    then have "round_half_even a b = q" by (simp add: round_half_even_def q_def r_def Let_def)
    then show ?thesis using True r dn by simp
  next
    case nl: False
    show ?thesis
    proof (cases "b < 2 * r")
      case True
      then have "round_half_even a b = q + 1"
        using nl by (simp add: round_half_even_def q_def r_def Let_def)
      then show ?thesis using True r up by simp
    next
      case False
      then have tie: "2 * r = b" using nl by simp
      show ?thesis
      proof (cases "even q")
        case True
        then have "round_half_even a b = q"
          using tie by (simp add: round_half_even_def q_def r_def Let_def)
        then show ?thesis using True tie r dn by simp
      next
        case False
        then have "round_half_even a b = q + 1"
          using tie by (simp add: round_half_even_def q_def r_def Let_def)
        then show ?thesis using False tie r up by simp
      qed
    qed
  qed
qed

lemma nearest_hundredths_unique:
  assumes "nearest_hundredths m e h" and "nearest_hundredths m e h'"
  shows "h = h'"
proof (cases "0 \<le> e")
  case True
  then show ?thesis using assms by (simp add: nearest_hundredths_def)
next
  case False
  define b :: int where "b = 2 ^ nat (- e)"
  define a where "a = 100 * m"
  have b: "0 < b" by (simp add: b_def)
  have h: "2 * \<bar>h * b - a\<bar> \<le> b" "2 * \<bar>h * b - a\<bar> = b \<longrightarrow> even h"
    and h': "2 * \<bar>h' * b - a\<bar> \<le> b" "2 * \<bar>h' * b - a\<bar> = b \<longrightarrow> even h'"
    using assms False by (simp_all add: nearest_hundredths_def b_def a_def)
  show ?thesis
  proof (rule ccontr)
    assume ne: "h \<noteq> h'"
    have less: False if lt: "x < y" and x: "2 * \<bar>x * b - a\<bar> \<le> b" "2 * \<bar>x * b - a\<bar> = b \<longrightarrow> even x"
      and y: "2 * \<bar>y * b - a\<bar> \<le> b" "2 * \<bar>y * b - a\<bar> = b \<longrightarrow> even y" for x y :: int
    proof -
      define u where "u = x * b"
      define v where "v = y * b"
      have "x + 1 \<le> y" using lt by simp
      then have "(x + 1) * b \<le> y * b" using b by (simp add: mult_right_mono)
      then have st: "u + b \<le> v" by (simp add: algebra_simps u_def v_def)
      have xu: "2 * \<bar>u - a\<bar> \<le> b" and yv: "2 * \<bar>v - a\<bar> \<le> b"
        using x(1) y(1) by (simp_all add: u_def v_def)
      have eq: "v = u + b" using st xu yv by arith
      have "2 * \<bar>u - a\<bar> = b" "2 * \<bar>v - a\<bar> = b" using st xu yv by arith+
      then have ev: "even x" "even y" using x(2) y(2) by (simp_all add: u_def v_def)
      have "y * b = (x + 1) * b" using eq by (simp add: algebra_simps u_def v_def)
      then have "y = x + 1" using b by simp
      then show False using ev by simp
    qed
    from ne consider "h < h'" | "h' < h" by linarith
    then show False
    proof cases
      case 1
      then show False using less [OF 1 h h'] by blast
    next
      case 2
      then show False using less [OF 2 h' h] by blast
    qed
  qed
qed

section \<open>The claims on the output table\<close>

text \<open>
  C7.  The rows of the table are the units in the order of presentation (the sections
  in the order sold, unsold, landowner, tenant, rehab, cidco, pap, which is not the order
  of extraction; the units of a section in the order of extraction), row \<open>k\<close> from 0 with
  the serial number \<open>k + 1\<close>, whatever serial number the unit itself holds.
\<close>

theorem table_rows_order_and_numbering:
  "table_rows self =
     map (\<lambda>(i, s, u). render_unit (include_building_column self) s i u)
       (zip [1 ..< 1 + length (units_in_order self)] (units_in_order self))
   \<and> map hd (table_rows self) = map XInt [1 ..< 1 + length (units_in_order self)]
   \<and> render_unit inc s i (u\<lparr>sr_no := x\<rparr>) = render_unit inc s i u
   \<and> section_order \<noteq> sections"
proof -
  have "map hd (table_rows self) = map XInt [1 ..< 1 + length (units_in_order self)]"
    by (rule nth_equalityI)
       (simp_all add: length_table_rows table_rows_nth render_unit_def del: upt_Suc)
  moreover have "render_unit inc s i (u\<lparr>sr_no := x\<rparr>) = render_unit inc s i u"
    by (simp add: render_unit_def)
  moreover have "section_order \<noteq> sections"
    by (simp add: section_order_def sections_def)
  ultimately show ?thesis using table_rows_eq by blast
qed

theorem table_rows_order_and_numbering_witness:
  "table_rows conv_abc =
     [[XInt 1, XStr ''A'', XStr ''23.50'', XStr ''Sold'', XStr []],
      [XInt 2, XStr ''B'', XStr ''n/a'', XStr ''Sold'', XStr []],
      [XInt 3, XStr ''C'', XStr ''40.00'', XStr ''Unsold'', XStr ''NA'']]"
proof -
  have "table_rows conv_abc =
     map (\<lambda>(i, s, u). render_unit (include_building_column conv_abc) s i u)
       (zip [1 ..< 1 + length (units_in_order conv_abc)] (units_in_order conv_abc))"
    using table_rows_order_and_numbering [of conv_abc] by blast
  also have "\<dots> =
     [[XInt 1, XStr ''A'', XStr ''23.50'', XStr ''Sold'', XStr []],
      [XInt 2, XStr ''B'', XStr ''n/a'', XStr ''Sold'', XStr []],
      [XInt 3, XStr ''C'', XStr ''40.00'', XStr ''Unsold'', XStr ''NA'']]"
    by code_simp
  finally show ?thesis .
qed

text \<open>
  C9.  The last cell of a row, the registration date, is empty for a unit of the sold
  section and \<open>NA\<close> for a unit of any other section.
\<close>

theorem registration_date_cell:
  "\<forall>k < length (units_in_order self).
     last (table_rows self ! k) =
       XStr (if fst (units_in_order self ! k) = ''sold'' then [] else ''NA'')"
  by (simp add: table_rows_nth render_unit_def reg_date_val_def)

theorem registration_date_cell_witness:
  "length (units_in_order conv_ad) = 2
   \<and> fst (units_in_order conv_ad ! 0) = ''sold'' \<and> last (table_rows conv_ad ! 0) = XStr []
   \<and> fst (units_in_order conv_ad ! 1) = ''cidco'' \<and> last (table_rows conv_ad ! 1) = XStr ''NA''"
proof -
  have l: "length (units_in_order conv_ad) = 2" by code_simp
  have s0: "fst (units_in_order conv_ad ! 0) = ''sold''" by code_simp
  have s1: "fst (units_in_order conv_ad ! 1) = ''cidco''" by code_simp
  have "last (table_rows conv_ad ! 0) = XStr []"
    using registration_date_cell [of conv_ad] l s0 by simp
  moreover have "last (table_rows conv_ad ! 1) = XStr ''NA''"
    using registration_date_cell [of conv_ad] l s1 by simp
  ultimately show ?thesis using l s0 s1 by blast
qed

text \<open>
  C10, as amended.  A carpet area that \<^verbatim>\<open>float\<close> reads as a finite number is written with
  two decimals: an optional minus sign, the digits of the integer part with no leading
  zero, a point, two digits; the digits, read as one decimal numeral, are the hundredths
  of the number read, that is the integer nearest to a hundred times its value, the even
  one at a tie, and there is one such integer only.  A carpet area that \<^verbatim>\<open>float\<close> reads
  as an infinity or a NaN is written \<open>inf\<close>, \<open>-inf\<close> or \<open>nan\<close>.  One that it does not read
  is written as it is.  The cell after the flat number holds that text.
\<close>

theorem carpet_area_cell:
  "(\<forall>neg m e. py_float s = Inr (Finite neg m e) \<longrightarrow>
      (\<exists>ds a b h. render_carpet s = (if neg then ''-'' else []) @ ds @ ''.'' @ [a, b]
         \<and> ds \<noteq> [] \<and> (\<forall>c \<in> set ds. is_digit c) \<and> is_digit a \<and> is_digit b
         \<and> (length ds = 1 \<or> hd ds \<noteq> CHR ''0'')
         \<and> int_of_digits (ds @ [a, b]) = h \<and> nearest_hundredths m e h))
   \<and> (nearest_hundredths m0 e0 h1 \<and> nearest_hundredths m0 e0 h2 \<longrightarrow> h1 = h2)
   \<and> (\<forall>neg. py_float s = Inr (Infinite neg) \<longrightarrow>
        render_carpet s = (if neg then ''-inf'' else ''inf''))
   \<and> (py_float s = Inr NotANumber \<longrightarrow> render_carpet s = ''nan'')
   \<and> (\<forall>e. py_float s = Inl e \<longrightarrow> render_carpet s = s)
   \<and> render_unit inc sec n u ! (if inc then 3 else 2) = XStr (render_carpet (carpet_area u))"
proof -
  have fin: "\<exists>ds a b h. render_carpet s = (if neg then ''-'' else []) @ ds @ ''.'' @ [a, b]
         \<and> ds \<noteq> [] \<and> (\<forall>c \<in> set ds. is_digit c) \<and> is_digit a \<and> is_digit b
         \<and> (length ds = 1 \<or> hd ds \<noteq> CHR ''0'')
         \<and> int_of_digits (ds @ [a, b]) = h \<and> nearest_hundredths m e h"
    if p: "py_float s = Inr (Finite neg m e)" for neg m e
  proof -
    define h where "h = (if 0 \<le> e then m * 2 ^ nat e * 100
                         else round_half_even (m * 100) (2 ^ nat (- e)))"
    have r: "render_carpet s = (if neg then ''-'' else []) @ str_digits (h div 100) @ ''.''
        @ [digit_char (h mod 100 div 10), digit_char (h mod 10)]"
      by (simp add: render_carpet_def p format_2f_def h_def Let_def)
    have h0: "0 \<le> h"
      using py_float_finite_nonneg [OF p] by (simp add: h_def round_half_even_nonneg)
    then have d0: "0 \<le> h div 100" by simp
    have ab: "is_digit (digit_char (h mod 100 div 10))" "is_digit (digit_char (h mod 10))"
      by (simp_all add: is_digit_digit_char)
    have near: "nearest_hundredths m e h"
    proof (cases "0 \<le> e")
      case True
      then show ?thesis by (simp add: nearest_hundredths_def h_def)
    next
      case False
      have "(0::int) < 2 ^ nat (- e)" by simp
      from round_half_even_nearest [OF this, of "m * 100"] show ?thesis
        using False by (simp add: nearest_hundredths_def h_def mult.commute)
    qed
    show ?thesis
      using r str_digits_digits [OF d0] ab str_digits_no_leading_zero [OF d0]
        hundredths_digits [OF h0] near
      by blast
  qed
  have uniq: "nearest_hundredths m0 e0 h1 \<and> nearest_hundredths m0 e0 h2 \<longrightarrow> h1 = h2"
    using nearest_hundredths_unique by blast
  have cell: "render_unit inc sec n u ! (if inc then 3 else 2)
      = XStr (render_carpet (carpet_area u))"
    by (simp add: render_unit_def)
  have inf: "\<forall>neg. py_float s = Inr (Infinite neg) \<longrightarrow>
        render_carpet s = (if neg then ''-inf'' else ''inf'')"
    by (simp add: render_carpet_def format_2f_def)
  have nan: "py_float s = Inr NotANumber \<longrightarrow> render_carpet s = ''nan''"
    by (simp add: render_carpet_def format_2f_def)
  have err: "\<forall>e. py_float s = Inl e \<longrightarrow> render_carpet s = s"
    by (simp add: render_carpet_def)
  show ?thesis using fin uniq inf nan err cell by blast
qed

theorem carpet_area_cell_witness:
  "py_float ''23.5'' = Inr (Finite False 6614661952700416 (- 48))
   \<and> nearest_hundredths 6614661952700416 (- 48) 2350
   \<and> render_carpet ''23.5'' = ''23.50''
   \<and> render_carpet ''2.675'' = ''2.67'' \<and> render_carpet ''0.125'' = ''0.12''
   \<and> render_carpet ''-12.3456'' = ''-12.35''
   \<and> py_float ''n/a'' = Inl ValueError \<and> render_carpet ''n/a'' = ''n/a''
   \<and> render_unit False ''sold'' 1 unit_A ! 2 = XStr ''23.50''"
proof -
  have p: "py_float ''23.5'' = Inr (Finite False 6614661952700416 (- 48))" by code_simp
  have q: "py_float ''n/a'' = Inl ValueError" by code_simp
  have r: "render_carpet ''23.5'' = ''23.50''" by code_simp
  have r2: "render_carpet ''2.675'' = ''2.67''" by code_simp
  have r3: "render_carpet ''0.125'' = ''0.12''" by code_simp
  have r4: "render_carpet ''-12.3456'' = ''-12.35''" by code_simp
  have c: "carpet_area unit_A = ''23.5''" by (simp add: unit_A_def)
  obtain ds a b h where d: "render_carpet ''23.5'' = [] @ ds @ ''.'' @ [a, b]"
      "int_of_digits (ds @ [a, b]) = h" "nearest_hundredths 6614661952700416 (- 48) h"
    using carpet_area_cell [of "''23.5''" 0 0 0 0 False "''sold''" 1 unit_A] p by auto
  have "ds @ ''.'' @ [a, b] = ''23'' @ ''.'' @ ''50''" using d(1) r by simp
  then have "ds = ''23'' \<and> [a, b] = ''50''"
    by (cases ds; cases "tl ds"; cases "tl (tl ds)") auto
  then have "int_of_digits (ds @ [a, b]) = 2350" by (simp add: int_of_digits_def)
  then have nh: "nearest_hundredths 6614661952700416 (- 48) 2350" using d(2,3) by simp
  have "render_carpet ''n/a'' = ''n/a''"
    using carpet_area_cell [of "''n/a''" 0 0 0 0 False "''sold''" 1 unit_A] q by blast
  moreover have "render_unit False ''sold'' 1 unit_A ! 2 = XStr ''23.50''"
    using carpet_area_cell [of "''23.5''" 0 0 0 0 False "''sold''" 1 unit_A] c r by simp
  ultimately show ?thesis using p q r r2 r3 r4 nh by blast
qed

theorem carpet_area_cell_counterexample:
  "py_float ''Infinity'' = Inr (Infinite False) \<and> render_carpet ''Infinity'' = ''inf''"
  by code_simp

section \<open>Lemmas on the scans of a grid\<close>

lemma starts_with_iff: "starts_with s p \<longleftrightarrow> (\<exists>t. s = p @ t)"
  by (induction s p rule: starts_with.induct) auto

lemma contains_iff: "contains n h \<longleftrightarrow> (\<exists>p s. h = p @ n @ s)"
proof (induction h)
  case Nil
  then show ?case by auto
next
  case (Cons c cs)
  show ?case
  proof
    assume "contains n (c # cs)"
    then consider "starts_with (c # cs) n" | "contains n cs" by auto
    then show "\<exists>p s. c # cs = p @ n @ s"
    proof cases
      case 1
      then obtain t where "c # cs = n @ t" by (auto simp: starts_with_iff)
      then have "c # cs = [] @ n @ t" by simp
      then show ?thesis by blast
    next
      case 2
      then obtain p s where "cs = p @ n @ s" using Cons.IH by blast
      then have "c # cs = (c # p) @ n @ s" by simp
      then show ?thesis by blast
    qed
  next
    assume "\<exists>p s. c # cs = p @ n @ s"
    then obtain p s where e: "c # cs = p @ n @ s" by blast
    show "contains n (c # cs)"
    proof (cases p)
      case Nil
      then have "starts_with (c # cs) n" using e by (auto simp: starts_with_iff)
      then show ?thesis by simp
    next
      case (Cons a p')
      then have "cs = p' @ n @ s" using e by simp
      then have "contains n cs" using Cons.IH by blast
      then show ?thesis by simp
    qed
  qed
qed

lemma section_scan_result:
  "(section_scan rows kw i = - 1
      \<and> (\<forall>r \<in> set rows. \<not> list_ex (\<lambda>c. contains (lower kw) (lower (cell_value c))) r))
   \<or> (\<exists>j < length rows. section_scan rows kw i = int (i + j)
         \<and> list_ex (\<lambda>c. contains (lower kw) (lower (cell_value c))) (rows ! j)
         \<and> (\<forall>k < j. \<not> list_ex (\<lambda>c. contains (lower kw) (lower (cell_value c))) (rows ! k)))"
proof (induction rows arbitrary: i)
  case Nil
  then show ?case by simp
next
  case (Cons r rows)
  define hit where "hit = list_ex (\<lambda>c. contains (lower kw) (lower (cell_value c)))"
  show ?case
  proof (cases "hit r")
    case True
    then have "section_scan (r # rows) kw i = int (i + 0) \<and> hit ((r # rows) ! 0)
        \<and> (\<forall>k < 0. \<not> hit ((r # rows) ! k))"
      by (simp add: hit_def)
    then show ?thesis unfolding hit_def by (intro disjI2 exI [of _ 0]) simp
  next
    case False
    then have step: "section_scan (r # rows) kw i = section_scan rows kw (Suc i)"
      by (simp add: hit_def)
    from Cons.IH [of "Suc i"] show ?thesis
    proof (elim disjE exE conjE)
      assume "section_scan rows kw (Suc i) = - 1"
        and "\<forall>r \<in> set rows. \<not> list_ex (\<lambda>c. contains (lower kw) (lower (cell_value c))) r"
      then show ?thesis using False step by (simp add: hit_def)
    next
      fix j
      assume j: "j < length rows" "section_scan rows kw (Suc i) = int (Suc i + j)"
        "list_ex (\<lambda>c. contains (lower kw) (lower (cell_value c))) (rows ! j)"
        "\<forall>k < j. \<not> list_ex (\<lambda>c. contains (lower kw) (lower (cell_value c))) (rows ! k)"
      have "\<forall>k < Suc j. \<not> hit ((r # rows) ! k)"
      proof (intro allI impI)
        fix k assume "k < Suc j"
        then show "\<not> hit ((r # rows) ! k)" using False j(4) by (cases k) (auto simp: hit_def)
      qed
      then have "Suc j < length (r # rows) \<and> section_scan (r # rows) kw i = int (i + Suc j)
          \<and> hit ((r # rows) ! Suc j) \<and> (\<forall>k < Suc j. \<not> hit ((r # rows) ! k))"
        using j step by (simp add: hit_def)
      then show ?thesis unfolding hit_def by blast
    qed
  qed
qed

lemma data_scan_bounds: "data_scan rows i = int d \<Longrightarrow> i \<le> d \<and> d < i + length rows"
proof (induction rows arbitrary: i)
  case Nil
  then show ?case by simp
next
  case (Cons r rows)
  show ?case
  proof (cases "list_ex equals_one r")
    case True
    then show ?thesis using Cons.prems by simp
  next
    case False
    then have "data_scan rows (Suc i) = int d" using Cons.prems by simp
    from Cons.IH [OF this] show ?thesis by simp
  qed
qed

lemma find_data_start_row_bounds:
  assumes "find_data_start_row g s = int d"
  shows "s \<le> d \<and> d < length g"
proof -
  have b: "s \<le> d \<and> d < s + length (drop s g)"
    using assms unfolding find_data_start_row_def by (rule data_scan_bounds)
  then show ?thesis by (cases "s \<le> length g") auto
qed

lemma header_scan_result:
  "(header_scan g idxs = - 1 \<and> (\<forall>i \<in> set idxs. match_count (g ! i) < 2))
   \<or> (\<exists>k < length idxs. header_scan g idxs = int (idxs ! k) \<and> 2 \<le> match_count (g ! (idxs ! k))
         \<and> (\<forall>j < k. match_count (g ! (idxs ! j)) < 2))"
proof (induction idxs)
  case Nil
  then show ?case by simp
next
  case (Cons i idxs)
  show ?case
  proof (cases "2 \<le> match_count (g ! i)")
    case True
    then have "0 < length (i # idxs) \<and> header_scan g (i # idxs) = int ((i # idxs) ! 0)
        \<and> 2 \<le> match_count (g ! ((i # idxs) ! 0))
        \<and> (\<forall>j < 0. match_count (g ! ((i # idxs) ! j)) < 2)"
      by simp
    then show ?thesis by blast
  next
    case False
    then have step: "header_scan g (i # idxs) = header_scan g idxs" by simp
    from Cons.IH show ?thesis
    proof (elim disjE exE conjE)
      assume "header_scan g idxs = - 1" "\<forall>i \<in> set idxs. match_count (g ! i) < 2"
      then show ?thesis using False step by simp
    next
      fix k
      assume k: "k < length idxs" "header_scan g idxs = int (idxs ! k)"
        "2 \<le> match_count (g ! (idxs ! k))" "\<forall>j < k. match_count (g ! (idxs ! j)) < 2"
      have "\<forall>j < Suc k. match_count (g ! ((i # idxs) ! j)) < 2"
      proof (intro allI impI)
        fix j assume "j < Suc k"
        then show "match_count (g ! ((i # idxs) ! j)) < 2" using False k(4) by (cases j) auto
      qed
      then have "Suc k < length (i # idxs) \<and> header_scan g (i # idxs) = int ((i # idxs) ! Suc k)
          \<and> 2 \<le> match_count (g ! ((i # idxs) ! Suc k))
          \<and> (\<forall>j < Suc k. match_count (g ! ((i # idxs) ! j)) < 2)"
        using k step by simp
      then show ?thesis by blast
    qed
  qed
qed

lemma find_header_row_result:
  "(find_header_row g d = - 1 \<and> (\<forall>j. d - 3 \<le> j \<and> j \<le> d \<longrightarrow> match_count (g ! j) < 2))
   \<or> (\<exists>h. find_header_row g d = int h \<and> d - 3 \<le> h \<and> h \<le> d \<and> 2 \<le> match_count (g ! h)
         \<and> (\<forall>j. d - 3 \<le> j \<and> j < h \<longrightarrow> match_count (g ! j) < 2))"
proof -
  define idxs where "idxs = [d - 3 ..< d + 1]"
  have n: "idxs ! k = d - 3 + k" if "k < length idxs" for k
    using that unfolding idxs_def by (simp del: upt_Suc)
  have len: "length idxs = d + 1 - (d - 3)" by (simp add: idxs_def del: upt_Suc)
  have mem: "set idxs = {j. d - 3 \<le> j \<and> j \<le> d}" by (auto simp: idxs_def simp del: upt_Suc)
  from header_scan_result [of g idxs] show ?thesis
  proof (elim disjE exE conjE)
    assume "header_scan g idxs = - 1" "\<forall>i \<in> set idxs. match_count (g ! i) < 2"
    then show ?thesis unfolding find_header_row_def idxs_def [symmetric] mem by blast
  next
    fix k
    assume k: "k < length idxs" "header_scan g idxs = int (idxs ! k)"
      "2 \<le> match_count (g ! (idxs ! k))" "\<forall>j < k. match_count (g ! (idxs ! j)) < 2"
    define h where "h = d - 3 + k"
    have hk: "idxs ! k = h" using n [OF k(1)] by (simp add: h_def)
    have "d - 3 \<le> h \<and> h \<le> d" using k(1) len by (simp add: h_def)
    moreover have "match_count (g ! j) < 2" if "d - 3 \<le> j \<and> j < h" for j
    proof -
      have lt: "j - (d - 3) < k" using that by (simp add: h_def) arith
      then have "j - (d - 3) < length idxs" using k(1) by simp
      then have "idxs ! (j - (d - 3)) = d - 3 + (j - (d - 3))" by (rule n)
      then have "idxs ! (j - (d - 3)) = j" using that by simp
      then show ?thesis using k(4) lt by metis
    qed
    ultimately have "find_header_row g d = int h \<and> d - 3 \<le> h \<and> h \<le> d
        \<and> 2 \<le> match_count (g ! h) \<and> (\<forall>j. d - 3 \<le> j \<and> j < h \<longrightarrow> match_count (g ! j) < 2)"
      using k(2,3) hk unfolding find_header_row_def idxs_def [symmetric] by simp
    then show ?thesis by blast
  qed
qed

section \<open>The claims on locating a section and its header row\<close>

text \<open>
  C5, as amended.  The section locator looks for the section label itself (sold, unsold,
  tenant, landowner, rehab, cidco, pap), not for its synonyms: it returns the index of
  the first row, from the top, with a cell whose text contains the label as a substring,
  without regard to case, and the sentinel -1 when no cell does.
\<close>

theorem find_section_start_first_row:
  "((find_section_start g kw = - 1
       \<and> (\<forall>r \<in> set g. \<forall>c \<in> set r. \<not> contains (lower kw) (lower (cell_value c))))
    \<or> (\<exists>i < length g. find_section_start g kw = int i
         \<and> (\<exists>c \<in> set (g ! i). contains (lower kw) (lower (cell_value c)))
         \<and> (\<forall>j < i. \<forall>c \<in> set (g ! j). \<not> contains (lower kw) (lower (cell_value c)))))
   \<and> (contains n h \<longleftrightarrow> (\<exists>p s. h = p @ n @ s))"
  using section_scan_result [of g kw 0] contains_iff [of n h]
  unfolding find_section_start_def list_ex_iff by simp

theorem find_section_start_first_row_witness:
  "find_section_start grid_booked ''sold'' = 1
   \<and> \<not> contains (lower ''sold'') (lower (cell_value (Str ''Details of Booked flats'')))"
proof -
  have e: "find_section_start grid_booked ''sold'' = 1" by code_simp
  have "\<forall>c \<in> set (grid_booked ! 0). \<not> contains (lower ''sold'') (lower (cell_value c))"
    using find_section_start_first_row [of grid_booked "''sold''"] e by auto
  then show ?thesis using e by (simp add: grid_booked_def)
qed

theorem find_section_start_counterexample:
  "spec_locate_section grid_booked ''sold'' = 0 \<and> find_section_start grid_booked ''sold'' = 1
   \<and> spec_locate_section [[Str ''Booked'']] ''sold'' = 0
   \<and> find_section_start [[Str ''Booked'']] ''sold'' = - 1"
  by code_simp

text \<open>
  C2, as amended.  For a located section with a first data row \<open>d\<close> (the first row at or
  after the section row with a cell equal to 1), the header row is the first row of the
  window from \<open>d - 3\<close> (not below 0) to \<open>d\<close> with at least two cells whose text contains one
  of the tokens sr, flat, carpet, unit, building, wing; when no row of the window has
  two, the section yields no records.
\<close>

theorem header_row_selection:
  assumes "find_section_start g kw = int s" and "find_data_start_row g s = int d"
  shows "s \<le> d \<and> d < length g \<and>
    ((\<exists>h. find_header_row g d = int h \<and> d - 3 \<le> h \<and> h \<le> d \<and> 2 \<le> match_count (g ! h)
          \<and> (\<forall>j. d - 3 \<le> j \<and> j < h \<longrightarrow> match_count (g ! j) < 2))
     \<or> (find_header_row g d = - 1
          \<and> (\<forall>j. d - 3 \<le> j \<and> j \<le> d \<longrightarrow> match_count (g ! j) < 2)
          \<and> extract_unit_data g kw self = (Inr [], self)))"
proof -
  have none: "extract_unit_data g kw self = (Inr [], self)" if "find_header_row g d = - 1"
    using that assms by (simp add: extract_unit_data_def section_mapping_def)
  show ?thesis
    using find_data_start_row_bounds [OF assms(2)] find_header_row_result [of g d] none by blast
qed

theorem header_row_selection_witness:
  "find_section_start grid_header ''sold'' = int 0 \<and> find_data_start_row grid_header 0 = int 2
   \<and> find_header_row grid_header 2 = 1 \<and> match_count (grid_header ! 0) < 2"
proof -
  have s: "find_section_start grid_header ''sold'' = int 0" by code_simp
  have d: "find_data_start_row grid_header 0 = int 2" by code_simp
  have h: "find_header_row grid_header 2 = 1" by code_simp
  have "match_count (grid_header ! 0) < 2"
    using header_row_selection [OF s d, of new_converter] h by auto
  then show ?thesis using s d h by blast
qed

theorem header_row_selection_counterexample:
  "find_section_start grid_header ''sold'' = 0 \<and> spec_header_row grid_header 0 = - 1
   \<and> find_data_start_row grid_header 0 = 2 \<and> find_header_row grid_header 2 = 1
   \<and> fst (extract_unit_data grid_header ''sold'' new_converter) =
       Inr [\<lparr>sr_no = 1, building_no = ''101'', flat_no = ''101'', carpet_area = [],
             status = ''sold'', registration_date = []\<rparr>]"
  by code_simp

section \<open>The claim on the project-info extractor\<close>

text \<open>
  C4.  The project-info extractor is to return a pair of strings for every grid.  On a
  grid with the certificate sentence in a cell and no match of the project-name pattern
  in it, the function raises \<^verbatim>\<open>UnboundLocalError\<close> at its \<^verbatim>\<open>return\<close>.
\<close>

theorem extract_project_info_unbound:
  "extract_project_info grid_no_having = Inl UnboundLocalError"
  by code_simp

theorem extract_project_info_unbound_witness:
  "\<forall>p. extract_project_info grid_no_having \<noteq> Inr p"
  using extract_project_info_unbound by simp

section \<open>Lemmas on the column mapping and the flag\<close>

lemma map_header_building_mono:
  "cm_building_no cm \<noteq> None \<Longrightarrow> cm_building_no (map_header i header cm) \<noteq> None"
  by (simp add: map_header_def)

lemma map_columns_building_mono:
  "cm_building_no cm \<noteq> None \<Longrightarrow> cm_building_no (fst (map_columns headers i (cm, flag))) \<noteq> None"
proof (induction headers arbitrary: i cm flag)
  case Nil
  then show ?case by simp
next
  case (Cons header headers)
  have "cm_building_no (map_header i header cm) \<noteq> None"
    using Cons.prems by (rule map_header_building_mono)
  then show ?case using Cons.IH by (simp add: Let_def)
qed

lemma map_columns_flag:
  "(cm_building_no cm \<noteq> None \<longrightarrow> flag) \<Longrightarrow>
     snd (map_columns headers i (cm, flag))
       = (flag \<or> cm_building_no (fst (map_columns headers i (cm, flag))) \<noteq> None)"
proof (induction headers arbitrary: i cm flag)
  case Nil
  then show ?case by auto
next
  case (Cons header headers)
  define cm1 where "cm1 = map_header i header cm"
  define flag1 where "flag1 = (if cm_building_no cm1 \<noteq> None then True else flag)"
  have step: "map_columns (header # headers) i (cm, flag) = map_columns headers (Suc i) (cm1, flag1)"
    by (simp add: cm1_def flag1_def Let_def)
  have inv: "cm_building_no cm1 \<noteq> None \<longrightarrow> flag1" by (simp add: flag1_def)
  have ih: "snd (map_columns headers (Suc i) (cm1, flag1))
      = (flag1 \<or> cm_building_no (fst (map_columns headers (Suc i) (cm1, flag1))) \<noteq> None)"
    using inv by (rule Cons.IH)
  show ?case
  proof (cases "cm_building_no cm1 \<noteq> None")
    case True
    then have "cm_building_no (fst (map_columns headers (Suc i) (cm1, flag1))) \<noteq> None"
      by (rule map_columns_building_mono)
    then show ?thesis unfolding step using ih by simp
  next
    case False
    then have "flag1 = flag" by (simp add: flag1_def)
    then show ?thesis unfolding step using ih by simp
  qed
qed

lemma section_mapping_flag:
  assumes "section_mapping g section = Some (d, cm, f)"
  shows "f = (cm_building_no cm \<noteq> None)"
proof -
  define hs where "hs = map (\<lambda>c. normalize_text (cell_value c))
      (g ! nat (find_header_row g (nat (find_data_start_row g (nat (find_section_start g section))))))"
  have "(cm, f) = map_columns hs 0 (empty_mapping, False)"
    using assms unfolding section_mapping_def hs_def
    by (auto simp: Let_def split: if_splits prod.splits)
  then have "cm = fst (map_columns hs 0 (empty_mapping, False))"
    and "f = snd (map_columns hs 0 (empty_mapping, False))"
    by (metis fst_conv, metis snd_conv)
  then show ?thesis
    using map_columns_flag [of empty_mapping False hs 0] by (simp add: empty_mapping_def)
qed

lemma extract_unit_data_state:
  "snd (extract_unit_data g section self)
     = self\<lparr>include_building_column := (include_building_column self \<or> building_located g section)\<rparr>"
proof (cases "section_mapping g section")
  case None
  then show ?thesis by (simp add: extract_unit_data_def building_located_def)
next
  case (Some t)
  obtain d cm f where t: "t = (d, cm, f)" by (cases t)
  have "f = (cm_building_no cm \<noteq> None)" using Some t section_mapping_flag by blast
  then show ?thesis using Some t by (simp add: extract_unit_data_def building_located_def)
qed

lemma extract_sections_flag:
  "extract_sections g secs self = (None, self') \<Longrightarrow>
     include_building_column self'
       = (include_building_column self \<or> list_ex (building_located g) secs)"
proof (induction secs arbitrary: self)
  case Nil
  then show ?case by simp
next
  case (Cons sec secs)
  obtain res st where e: "extract_unit_data g sec self = (res, st)"
    by (cases "extract_unit_data g sec self")
  have st: "include_building_column st
      = (include_building_column self \<or> building_located g sec)"
    using extract_unit_data_state [of g sec self] e by simp
  show ?case
  proof (cases res)
    case (Inl err)
    then show ?thesis using Cons.prems e by simp
  next
    case (Inr units)
    then have "extract_sections g secs (st\<lparr>unit_sections := dict_set sec units (unit_sections st)\<rparr>)
        = (None, self')"
      using Cons.prems e by simp
    from Cons.IH [OF this] show ?thesis using st by auto
  qed
qed

lemma filename_fallback_flag:
  "include_building_column (filename_fallback fallback self) = include_building_column self"
  by (cases fallback) (simp add: filename_fallback_def Let_def)

lemma process_form3_file_flag:
  assumes "process_form3_file sheets fallback self = (True, self')"
  shows "include_building_column self'
     = (include_building_column self
        \<or> (\<exists>sh. find_sheet ''table c'' sheets = Some sh
              \<and> list_ex (building_located (sh_data_str sh)) sections))"
proof -
  define a where "a = (case find_sheet ''table a'' sheets of
              None \<Rightarrow> Inr self
            | Some sh \<Rightarrow>
                (case extract_project_info (sh_data sh) of
                   Inl e \<Rightarrow> Inl e
                 | Inr (p, r) \<Rightarrow> Inr (self\<lparr>project_name := p, rera_number := r\<rparr>)))"
  obtain self1 where a1: "a = Inr self1"
    using assms unfolding process_form3_file_def a_def [symmetric] by (cases a) auto
  have f1: "include_building_column self1 = include_building_column self"
    using a1 unfolding a_def by (auto split: option.splits sum.splits prod.splits)
  define self2 where "self2 = (case find_sheet ''table b'' sheets of
                         None \<Rightarrow> self1
                       | Some sh \<Rightarrow> self1\<lparr>as_on_date := extract_as_on_date (sh_data sh)\<rparr>)"
  have f2: "include_building_column self2 = include_building_column self1"
    by (simp add: self2_def split: option.splits)
  define c where "c = (case find_sheet ''table c'' sheets of
                      None \<Rightarrow> (None, self2)
                    | Some sh \<Rightarrow> extract_sections (sh_data_str sh) sections self2)"
  have p: "process_form3_file sheets fallback self
      = (case c of (Some e, self3) \<Rightarrow> (False, self3)
                 | (None, self3) \<Rightarrow> (True, filename_fallback fallback self3))"
    unfolding process_form3_file_def a_def [symmetric] a1 c_def self2_def by (simp add: Let_def)
  obtain self3 where c3: "c = (None, self3)" and s': "self' = filename_fallback fallback self3"
    using assms unfolding p by (auto split: prod.splits option.splits)
  have "include_building_column self3
      = (include_building_column self2
         \<or> (\<exists>sh. find_sheet ''table c'' sheets = Some sh
               \<and> list_ex (building_located (sh_data_str sh)) sections))"
  proof (cases "find_sheet ''table c'' sheets")
    case None
    then show ?thesis using c3 by (simp add: c_def)
  next
    case (Some sh)
    then have "extract_sections (sh_data_str sh) sections self2 = (None, self3)"
      using c3 by (simp add: c_def)
    from extract_sections_flag [OF this] show ?thesis using Some by simp
  qed
  then show ?thesis using f1 f2 s' by (simp add: filename_fallback_flag)
qed

section \<open>The claim on the building column\<close>

text \<open>
  C6.  After a workbook is processed, the flag of the converter is true exactly when the
  column mapping of at least one section of Table C located a building or wing column;
  every extraction, of whatever sheet and section, leaves the flag true when it was, and
  sets it exactly when its column mapping located such a column.  The one flag decides
  the table: when it is false, the header has no cell \<open>Building No\<close> and every row is
  serial, flat, carpet area, status, registration date; when it is true, the header has
  the cell and every row of every section has the building label as its second cell.
\<close>

theorem building_column_flag_global:
  "(process_form3_file sheets fallback new_converter = (True, self) \<longrightarrow>
      include_building_column self
        = (\<exists>sh. find_sheet ''table c'' sheets = Some sh
             \<and> (\<exists>section \<in> set sections. building_located (sh_data_str sh) section)))
   \<and> include_building_column (snd (extract_unit_data g kw c))
        = (include_building_column c \<or> building_located g kw)
   \<and> (''Building No'' \<in> set (table_headers (include_building_column c)))
        = include_building_column c
   \<and> length (table_rows c) = length (units_in_order c)
   \<and> (\<forall>k < length (units_in_order c).
          table_rows c ! k =
            (if include_building_column c
             then [XInt (k + 1), XStr (strip (building_no (snd (units_in_order c ! k)))),
                   XStr (strip (flat_no (snd (units_in_order c ! k)))),
                   XStr (render_carpet (carpet_area (snd (units_in_order c ! k)))),
                   XStr (status_display (fst (units_in_order c ! k))),
                   XStr (reg_date_val (fst (units_in_order c ! k)))]
             else [XInt (k + 1),
                   XStr (strip (flat_no (snd (units_in_order c ! k)))),
                   XStr (render_carpet (carpet_area (snd (units_in_order c ! k)))),
                   XStr (status_display (fst (units_in_order c ! k))),
                   XStr (reg_date_val (fst (units_in_order c ! k)))]))"
proof -
  have a: "process_form3_file sheets fallback new_converter = (True, self) \<longrightarrow>
      include_building_column self
        = (\<exists>sh. find_sheet ''table c'' sheets = Some sh
             \<and> (\<exists>section \<in> set sections. building_located (sh_data_str sh) section))"
  proof
    assume "process_form3_file sheets fallback new_converter = (True, self)"
    from process_form3_file_flag [OF this] show "include_building_column self
        = (\<exists>sh. find_sheet ''table c'' sheets = Some sh
             \<and> (\<exists>section \<in> set sections. building_located (sh_data_str sh) section))"
      by (simp add: new_converter_def list_ex_iff)
  qed
  have e: "include_building_column (snd (extract_unit_data g kw c))
        = (include_building_column c \<or> building_located g kw)"
    by (simp add: extract_unit_data_state)
  have b: "(''Building No'' \<in> set (table_headers (include_building_column c)))
        = include_building_column c"
    by (simp add: table_headers_def)
  have r: "\<forall>k < length (units_in_order c).
          table_rows c ! k =
            (if include_building_column c
             then [XInt (k + 1), XStr (strip (building_no (snd (units_in_order c ! k)))),
                   XStr (strip (flat_no (snd (units_in_order c ! k)))),
                   XStr (render_carpet (carpet_area (snd (units_in_order c ! k)))),
                   XStr (status_display (fst (units_in_order c ! k))),
                   XStr (reg_date_val (fst (units_in_order c ! k)))]
             else [XInt (k + 1),
                   XStr (strip (flat_no (snd (units_in_order c ! k)))),
                   XStr (render_carpet (carpet_area (snd (units_in_order c ! k)))),
                   XStr (status_display (fst (units_in_order c ! k))),
                   XStr (reg_date_val (fst (units_in_order c ! k)))])"
    by (simp add: table_rows_nth render_unit_def)
  show ?thesis by (intro conjI a e b r length_table_rows)
qed

theorem building_column_flag_global_witness:
  "process_form3_file book_two_sections ([], [], []) new_converter = (True, conv_two_sections)
   \<and> building_located grid_two_sections ''sold''
   \<and> \<not> building_located grid_two_sections ''unsold''
   \<and> include_building_column conv_two_sections
   \<and> fst (units_in_order conv_two_sections ! 1) = ''unsold''
   \<and> length (table_rows conv_two_sections ! 1) = 6"
proof -
  have p: "process_form3_file book_two_sections ([], [], []) new_converter
      = (True, conv_two_sections)"
    by code_simp
  have t: "find_sheet ''table c'' book_two_sections = Some (hd book_two_sections)" by code_simp
  have d: "sh_data_str (hd book_two_sections) = grid_two_sections"
    by (simp add: book_two_sections_def)
  have m: "''sold'' \<in> set sections" by (simp add: sections_def)
  have s: "building_located grid_two_sections ''sold''" by code_simp
  have u: "\<not> building_located grid_two_sections ''unsold''" by code_simp
  have l: "length (units_in_order conv_two_sections) = 2" by code_simp
  have f: "fst (units_in_order conv_two_sections ! 1) = ''unsold''" by code_simp
  note inst = building_column_flag_global [of book_two_sections "([], [], [])" conv_two_sections
      grid_two_sections "''sold''" conv_two_sections]
  have i: "include_building_column conv_two_sections"
    using inst p t d m s by auto
  have "length (table_rows conv_two_sections ! 1) = 6"
    using inst l i by simp
  then show ?thesis using p s u f i by blast
qed

section \<open>The merges of the metadata\<close>

lemma filename_fallback_keeps:
  "(project_name self \<noteq> [] \<longrightarrow> project_name (filename_fallback fallback self) = project_name self)
   \<and> (rera_number self \<noteq> [] \<longrightarrow> rera_number (filename_fallback fallback self) = rera_number self)
   \<and> (as_on_date self \<noteq> [] \<longrightarrow> as_on_date (filename_fallback fallback self) = as_on_date self)"
  by (cases fallback) (simp add: filename_fallback_def Let_def)

lemma recover_sections_metadata:
  "project_name (snd (recover_sections g secs c)) = project_name c
   \<and> rera_number (snd (recover_sections g secs c)) = rera_number c
   \<and> as_on_date (snd (recover_sections g secs c)) = as_on_date c"
proof (induction secs arbitrary: c)
  case Nil
  then show ?case by simp
next
  case (Cons sec secs)
  show ?case
  proof (cases "map_of (unit_sections c) sec")
    case None
    then show ?thesis by simp
  next
    case (Some current)
    show ?thesis
    proof (cases "current = []")
      case False
      then show ?thesis using Some Cons.IH by simp
    next
      case True
      obtain res st where e: "extract_unit_data g sec c = (res, st)"
        by (cases "extract_unit_data g sec c")
      have st: "st = c\<lparr>include_building_column := (include_building_column c \<or> building_located g sec)\<rparr>"
        using extract_unit_data_state [of g sec c] e by simp
      show ?thesis
      proof (cases res)
        case (Inl err)
        then show ?thesis using Some True e st by simp
      next
        case (Inr units)
        then show ?thesis using Some True e st Cons.IH by simp
      qed
    qed
  qed
qed

lemma recover_sheet_keeps:
  "(project_name c \<noteq> [] \<and> rera_number c \<noteq> [] \<longrightarrow>
      project_name (recover_sheet g c) = project_name c
      \<and> rera_number (recover_sheet g c) = rera_number c)
   \<and> (as_on_date c \<noteq> [] \<longrightarrow> as_on_date (recover_sheet g c) = as_on_date c)"
  by (cases "extract_project_info g")
     (auto simp: recover_sheet_def Let_def recover_sections_metadata split: prod.splits)

text \<open>
  C3.  A metadata field that holds a value is not to be overwritten.  A workbook with no
  sheet named after Table A leaves the project name to the file name, \<open>Alpha\<close>, and the
  registration number empty; the recovery chain then reads the certificate sentence of
  a sheet and replaces the project name by \<open>Beta\<close>.  The lemmas above give what the merges
  do keep: the fallback to the file name every field, the recovery chain the date, and
  the name and the number when both are there.
\<close>

theorem recovery_overwrites_project_name:
  "process_form3_file book_beta (''Alpha'', [], []) new_converter = (True, conv_alpha)
   \<and> project_name conv_alpha = ''Alpha''
   \<and> project_name (snd (attempt_data_recovery book_beta conv_alpha)) = ''Beta''"
  by code_simp

theorem recovery_overwrites_project_name_witness:
  "project_name (snd (attempt_data_recovery book_beta conv_alpha)) \<noteq> project_name conv_alpha"
  using recovery_overwrites_project_name by simp

section \<open>Lemmas on the row loop\<close>

lemma field_text_iloc:
  "field_text r i = (case iloc r i of None \<Rightarrow> [] | Some c \<Rightarrow> if notna c then strip (py_str c) else [])"
  by (simp add: field_text_def iloc_def)

lemma same_used_cells_iloc:
  assumes "same_used_cells cm r1 r2"
  shows "iloc r1 (case cm_sr_no cm of Some i \<Rightarrow> i | None \<Rightarrow> 0)
           = iloc r2 (case cm_sr_no cm of Some i \<Rightarrow> i | None \<Rightarrow> 0)"
    and "iloc r1 (case cm_building_no cm of Some i \<Rightarrow> i | None \<Rightarrow> 1)
           = iloc r2 (case cm_building_no cm of Some i \<Rightarrow> i | None \<Rightarrow> 1)"
    and "iloc r1 (case cm_flat_no cm of Some i \<Rightarrow> i | None \<Rightarrow> 2)
           = iloc r2 (case cm_flat_no cm of Some i \<Rightarrow> i | None \<Rightarrow> 2)"
    and "iloc r1 (case cm_carpet_area cm of Some i \<Rightarrow> i | None \<Rightarrow> 3)
           = iloc r2 (case cm_carpet_area cm of Some i \<Rightarrow> i | None \<Rightarrow> 3)"
  using assms by (simp_all add: same_used_cells_def used_columns_def)

lemma make_unit_same_used_cells:
  "same_used_cells cm r1 r2 \<Longrightarrow> make_unit cm kw r1 n = make_unit cm kw r2 n"
  by (simp add: make_unit_def field_text_iloc same_used_cells_iloc)

lemma extract_rows_same_used_cells:
  "list_all2 (same_used_cells cm) rows1 rows2 \<Longrightarrow>
     extract_rows cm kw rows1 started units = extract_rows cm kw rows2 started units"
proof (induction rows1 rows2 arbitrary: started units rule: list_all2_induct)
  case Nil
  then show ?case by simp
next
  case (Cons r1 rows1 r2 rows2)
  have c: "iloc r1 (case cm_sr_no cm of Some i \<Rightarrow> i | None \<Rightarrow> 0)
      = iloc r2 (case cm_sr_no cm of Some i \<Rightarrow> i | None \<Rightarrow> 0)"
    using Cons.hyps(1) by (rule same_used_cells_iloc)
  have u: "make_unit cm kw r1 n = make_unit cm kw r2 n" for n
    using Cons.hyps(1) by (rule make_unit_same_used_cells)
  show ?case
    unfolding extract_rows.simps c u Cons.IH ..
qed

lemma section_mapping_header:
  assumes "find_section_start g kw = int s" and "find_data_start_row g s = int d"
    and "find_header_row g d = int h"
  shows "\<exists>f. section_mapping g kw = Some (d, header_mapping (g ! h), f)
           \<and> f = snd (map_columns (map (\<lambda>c. normalize_text (cell_value c)) (g ! h)) 0
                        (empty_mapping, False))"
  using assms
  by (simp add: section_mapping_def header_mapping_def Let_def case_prod_unfold)

section \<open>The claim on the independence of the extraction\<close>

text \<open>
  C8.  Two grids with the same section row, the same first data row, the same header
  row and the same cells in the serial, building, flat and carpet columns of every row
  from the first data row on give the same extraction for the section, whatever their
  other cells hold: the loop ends by the serial cells and the end of the grid alone.
\<close>

theorem extraction_ignores_other_cells:
  assumes "find_section_start g1 kw = int s" and "find_section_start g2 kw = int s"
    and "find_data_start_row g1 s = int d" and "find_data_start_row g2 s = int d"
    and "find_header_row g1 d = int h" and "find_header_row g2 d = int h"
    and "g1 ! h = g2 ! h"
    and "list_all2 (same_used_cells (header_mapping (g1 ! h))) (drop d g1) (drop d g2)"
  shows "extract_unit_data g1 kw self = extract_unit_data g2 kw self"
proof -
  obtain f1 where m1: "section_mapping g1 kw = Some (d, header_mapping (g1 ! h), f1)"
    and f1: "f1 = snd (map_columns (map (\<lambda>c. normalize_text (cell_value c)) (g1 ! h)) 0
                        (empty_mapping, False))"
    using section_mapping_header [OF assms(1,3,5)] by blast
  obtain f2 where m2: "section_mapping g2 kw = Some (d, header_mapping (g2 ! h), f2)"
    and f2: "f2 = snd (map_columns (map (\<lambda>c. normalize_text (cell_value c)) (g2 ! h)) 0
                        (empty_mapping, False))"
    using section_mapping_header [OF assms(2,4,6)] by blast
  have "f1 = f2" using f1 f2 assms(7) by simp
  moreover have "extract_rows (header_mapping (g1 ! h)) kw (drop d g1) False []
      = extract_rows (header_mapping (g1 ! h)) kw (drop d g2) False []"
    using assms(8) by (rule extract_rows_same_used_cells)
  ultimately show ?thesis
    using m1 m2 assms(7) by (simp add: extract_unit_data_def)
qed

theorem extraction_ignores_other_cells_witness:
  "grid_remarks ''ok'' \<noteq> grid_remarks ''see unsold flats''
   \<and> extract_unit_data (grid_remarks ''ok'') ''sold'' new_converter
       = extract_unit_data (grid_remarks ''see unsold flats'') ''sold'' new_converter"
proof -
  have s1: "find_section_start (grid_remarks ''ok'') ''sold'' = int 0" by code_simp
  have s2: "find_section_start (grid_remarks ''see unsold flats'') ''sold'' = int 0" by code_simp
  have d1: "find_data_start_row (grid_remarks ''ok'') 0 = int 2" by code_simp
  have d2: "find_data_start_row (grid_remarks ''see unsold flats'') 0 = int 2" by code_simp
  have h1: "find_header_row (grid_remarks ''ok'') 2 = int 1" by code_simp
  have h2: "find_header_row (grid_remarks ''see unsold flats'') 2 = int 1" by code_simp
  have r: "grid_remarks ''ok'' ! 1 = grid_remarks ''see unsold flats'' ! 1" by code_simp
  have c: "list_all2 (same_used_cells (header_mapping (grid_remarks ''ok'' ! 1)))
      (drop 2 (grid_remarks ''ok'')) (drop 2 (grid_remarks ''see unsold flats''))"
    by code_simp
  have n: "grid_remarks ''ok'' \<noteq> grid_remarks ''see unsold flats''" by code_simp
  show ?thesis
    using extraction_ignores_other_cells [OF s1 s2 d1 d2 h1 h2 r c, of new_converter] n by blast
qed

section \<open>The run of rows the loop extracts\<close>

text \<open>
  Once armed, the loop takes the rows while their serial cells give an integer.  It
  returns the records at the first row whose serial cell is missing, blank or raises
  \<^verbatim>\<open>ValueError\<close>, and at the end of the grid; it raises at a first such row whose serial
  cell raises \<^verbatim>\<open>OverflowError\<close>.  Before it is armed it skips the rows whose serial
  text is not \<open>1\<close>.
\<close>

lemma extract_rows_head:
  "extract_rows cm kw (r # rows) True units =
     (case serial_outcome cm r of
        Inl e \<Rightarrow> if e = OverflowError then Inl OverflowError else Inr units
      | Inr n \<Rightarrow> extract_rows cm kw rows True (units @ [unit_of_row cm kw r]))"
proof (cases "serial_cell cm r")
  case None
  then show ?thesis
    by (simp add: serial_outcome_def serial_cell_def isna_def)
next
  case (Some c)
  show ?thesis
  proof (cases "\<not> notna c \<or> strip (py_str c) = []")
    case True
    then show ?thesis using Some
      by (auto simp: serial_outcome_def serial_cell_def isna_def str_opt_def)
  next
    case False
    then show ?thesis using Some
      by (cases "int_float c")
         (auto simp: serial_outcome_def serial_cell_def isna_def str_opt_def unit_of_row_def
               split: error.splits)
  qed
qed

lemma extract_rows_started:
  "extract_rows cm kw rows True units =
     (case dropWhile (serial_valid cm) rows of
        [] \<Rightarrow> Inr (units @ map (unit_of_row cm kw) (takeWhile (serial_valid cm) rows))
      | r # rest \<Rightarrow>
          if serial_outcome cm r = Inl OverflowError then Inl OverflowError
          else Inr (units @ map (unit_of_row cm kw) (takeWhile (serial_valid cm) rows)))"
proof (induction rows arbitrary: units)
  case Nil
  then show ?case by simp
next
  case (Cons r rows)
  show ?case
  proof (cases "serial_outcome cm r")
    case (Inl e)
    then have "\<not> serial_valid cm r" by (simp add: serial_valid_def)
    then show ?thesis using Inl by (simp add: extract_rows_head del: extract_rows.simps)
  next
    case (Inr n)
    then have v: "serial_valid cm r" by (simp add: serial_valid_def)
    have step: "extract_rows cm kw (r # rows) True units
        = extract_rows cm kw rows True (units @ [unit_of_row cm kw r])"
      using Inr by (simp add: extract_rows_head del: extract_rows.simps)
    show ?thesis
      unfolding step Cons.IH using v
      by (simp del: dropWhile_eq_Nil_conv split: list.split)
  qed
qed

lemma extract_rows_arming:
  "extract_rows cm kw rows False units
     = extract_rows cm kw (dropWhile (\<lambda>r. \<not> arms cm r) rows) True units"
proof (induction rows)
  case Nil
  then show ?case by simp
next
  case (Cons r rows)
  show ?case
  proof (cases "arms cm r")
    case True
    then show ?thesis by (simp add: arms_def serial_cell_def)
  next
    case False
    then show ?thesis using Cons.IH by (simp add: arms_def serial_cell_def)
  qed
qed

lemma extract_rows_run:
  "extract_rows cm kw rows False [] =
     (case dropWhile (serial_valid cm) (dropWhile (\<lambda>r. \<not> arms cm r) rows) of
        [] \<Rightarrow> Inr (map (unit_of_row cm kw)
                 (takeWhile (serial_valid cm) (dropWhile (\<lambda>r. \<not> arms cm r) rows)))
      | r # rest \<Rightarrow>
          if serial_outcome cm r = Inl OverflowError then Inl OverflowError
          else Inr (map (unit_of_row cm kw)
                 (takeWhile (serial_valid cm) (dropWhile (\<lambda>r. \<not> arms cm r) rows))))"
  unfolding extract_rows_arming extract_rows_started
  by (simp del: dropWhile_eq_Nil_conv split: list.split)

lemma stop_on_invalid_examples:
  "map (\<lambda>u. (sr_no u, flat_no u))
     (case fst (extract_unit_data (grid_serials [Str ''1'', Str ''2'', Str ''x'', Str ''4''])
                  ''sold'' new_converter) of Inl e \<Rightarrow> [] | Inr us \<Rightarrow> us)
     = [(1, ''101''), (2, ''101'')]
   \<and> map (\<lambda>u. (sr_no u, flat_no u))
     (case fst (extract_unit_data (grid_serials [Str ''1'', Str ''2'', Str [], Str ''4''])
                  ''sold'' new_converter) of Inl e \<Rightarrow> [] | Inr us \<Rightarrow> us)
     = [(1, ''101''), (2, ''101'')]
   \<and> map (\<lambda>u. (sr_no u, flat_no u))
     (case fst (extract_unit_data (grid_serials [Str ''7'', Str ''1.0'', Str ''1'', Str ''2.0'', NaN])
                  ''sold'' new_converter) of Inl e \<Rightarrow> [] | Inr us \<Rightarrow> us)
     = [(1, ''101''), (2, ''101'')]"
  by code_simp

text \<open>
  C1.  Record extraction is to end before the first row whose serial cell does not parse
  as an integer.  With the serial cells 1, 2 and \<open>inf\<close>, \<^verbatim>\<open>float\<close> reads the third,
  \<^verbatim>\<open>int\<close> raises \<^verbatim>\<open>OverflowError\<close>, which the loop does not catch: the extraction raises,
  and processing the workbook fails.  Lemma \<open>extract_rows_run\<close> gives the loop on every
  list of rows, lemma \<open>stop_on_invalid_examples\<close> the serial cells that end it.
\<close>

theorem extraction_raises_on_infinite_serial:
  "fst (extract_unit_data (grid_serials [Str ''1'', Str ''2'', Str ''inf'']) ''sold'' new_converter)
     = Inl OverflowError
   \<and> fst (process_form3_file (book_serials [Str ''1'', Str ''2'', Str ''inf'']) ([], [], [])
           new_converter) = False"
  by code_simp

theorem extraction_raises_on_infinite_serial_witness:
  "\<forall>units. fst (extract_unit_data (grid_serials [Str ''1'', Str ''2'', Str ''inf'']) ''sold''
       new_converter) \<noteq> Inr units"
  using extraction_raises_on_infinite_serial by simp

end
